(* ===== verification/Prelude.thy ===== *)
theory Prelude
  imports Main "HOL-Library.Word"
begin

text \<open>
  Shared vocabulary of the ArduinoFlatBox development: the fact collections the
  component theories feed, the 16-bit range of the AVR \<open>int\<close> type in which the
  firmware keeps every global, and generic lemmas on lists and integers that the
  parser, printer and motor proofs share.
\<close>

named_theorems fb_simps "rewrite rules of the flat-box model that the component proofs share"
named_theorems fb_intros "introduction rules for the invariants of the flat-box model"

type_synonym angle = int
  \<comment> \<open>a servo angle in degrees, an \<open>int\<close> global of the sketch\<close>

definition INT16_MIN :: int where
  "INT16_MIN = -32768"

definition INT16_MAX :: int where
  "INT16_MAX = 32767"

definition int16_ok :: "int \<Rightarrow> bool" where
  "int16_ok x \<longleftrightarrow> INT16_MIN \<le> x \<and> x \<le> INT16_MAX"
  \<comment> \<open>the value fits the 16-bit \<open>int\<close> of the ATmega328 target\<close>

definition as_int16 :: "int \<Rightarrow> 16 word" where
  "as_int16 x = word_of_int x"
  \<comment> \<open>storing a value in a C \<open>int\<close> variable of the AVR target\<close>

text \<open>A value in range is stored without loss: reading the 16-bit variable back
  as a signed integer gives it again.\<close>

lemma sint_as_int16 [simp]:
  "int16_ok x \<Longrightarrow> sint (as_int16 x) = x"
  unfolding int16_ok_def INT16_MIN_def INT16_MAX_def as_int16_def
  by (simp add: sint_sbintrunc' signed_take_bit_int_eq_self)

lemma int16_okI [fb_intros]:
  "-32768 \<le> x \<Longrightarrow> x \<le> 32767 \<Longrightarrow> int16_ok x"
  by (simp add: int16_ok_def INT16_MIN_def INT16_MAX_def)

lemma int16_ok_between [fb_intros]:
  "int16_ok lo \<Longrightarrow> int16_ok hi \<Longrightarrow> lo \<le> x \<Longrightarrow> x \<le> hi \<Longrightarrow> int16_ok x"
  by (simp add: int16_ok_def)

text \<open>Lists: reading up to the first occurrence of a terminator.\<close>

lemma takeWhile_neq_notin: "a \<notin> set xs \<Longrightarrow> takeWhile (\<lambda>c. c \<noteq> a) xs = xs"
  by (metis (mono_tags) takeWhile_eq_all_conv)

lemma length_takeWhile_less_notin:
  "x \<in> set xs \<Longrightarrow> \<not> P x \<Longrightarrow> length (takeWhile P xs) < length xs"
  by (induction xs) auto

end
