(* ===== verification/FlatBoxState.thy ===== *)
theory FlatBoxState
  imports Prelude
begin

text \<open>
  The data of the sketch \<open>src/src/main.cpp\<close> with the constants of
  \<open>src/src/main.h\<close>: the four C enums as datatypes together with the integer
  each constant has in C (the status reply prints those integers), the global
  variables as one record \<open>flatbox\<close>, their initial values, and the observable
  effects of the firmware (serial output, LED duty, servo commands, delays) as a
  datatype of events.  The device identity \<open>deviceId\<close> is a global that no code
  writes, so it is a parameter of the operations rather than a field.
\<close>

section \<open>Configuration constants (main.h)\<close>

definition CLOSED_ANGLE :: angle where
  "CLOSED_ANGLE = 270"

definition OPEN_ANGLE :: angle where
  "OPEN_ANGLE = 0"

definition LED_PIN :: nat where
  "LED_PIN = 6"

definition SWITCH_PIN :: nat where
  "SWITCH_PIN = 10"

definition SERVO_PIN :: nat where
  "SERVO_PIN = 9"

definition SERVO_DELAY :: nat where
  "SERVO_DELAY = 15"

definition SERVO_INITIAL_WAIT :: nat where
  "SERVO_INITIAL_WAIT = 2000"

section \<open>Enumerations\<close>

datatype devices = FLAT_MAN_L | FLAT_MAN_XL | FLAT_MAN | FLIP_FLAT

fun device_code :: "devices \<Rightarrow> int" where
  "device_code FLAT_MAN_L = 10"
| "device_code FLAT_MAN_XL = 15"
| "device_code FLAT_MAN = 19"
| "device_code FLIP_FLAT = 99"

datatype motorStatuses = STOPPED | RUNNING

fun motor_code :: "motorStatuses \<Rightarrow> int" where
  "motor_code STOPPED = 0"
| "motor_code RUNNING = 1"

datatype lightStatuses = OFF | ON

fun light_code :: "lightStatuses \<Rightarrow> int" where
  "light_code OFF = 0"
| "light_code ON = 1"

datatype shutterStatuses = NEITHER_OPEN_NOR_CLOSED | CLOSED | OPEN | TIMED_OUT

fun shutter_code :: "shutterStatuses \<Rightarrow> int" where
  "shutter_code NEITHER_OPEN_NOR_CLOSED = 0"
| "shutter_code CLOSED = 1"
| "shutter_code OPEN = 2"
| "shutter_code TIMED_OUT = 3"

datatype motorDirection = OPENING | CLOSING | NONE

fun direction_code :: "motorDirection \<Rightarrow> int" where
  "direction_code OPENING = 0"
| "direction_code CLOSING = 1"
| "direction_code NONE = 2"

section \<open>Global state\<close>

text \<open>One field per mutable global of \<open>main.cpp\<close> (lines 68--76), with the
  enum-typed \<open>int\<close> globals at their enum type.  \<open>lastSwitchState\<close> and
  \<open>currentSwitchState\<close> are Arduino \<open>boolean\<close>s (\<open>LOW\<close> is \<open>False\<close>).\<close>

record flatbox =
  motorStatus :: motorStatuses
  coverStatus :: shutterStatuses
  motorDirection :: motorDirection
  targetAngle :: angle
  currentAngle :: angle
  lightStatus :: lightStatuses
  brightness :: int
  lastSwitchState :: bool
  currentSwitchState :: bool

definition init_flatbox :: flatbox where
  "init_flatbox =
     \<lparr>motorStatus = STOPPED, coverStatus = CLOSED, motorDirection = NONE,
      targetAngle = CLOSED_ANGLE, currentAngle = CLOSED_ANGLE, lightStatus = OFF,
      brightness = 0, lastSwitchState = False, currentSwitchState = False\<rparr>"

section \<open>Observable effects\<close>

text \<open>What the sketch does to the outside world, in the order it does it:
  \<open>Serial.begin\<close>, \<open>pinMode\<close>, \<open>Serial.write\<close> of a reply, \<open>analogWrite\<close>,
  \<open>myservo.write\<close>, \<open>myservo.attach\<close>/\<open>detach\<close> and \<open>delay\<close>, with the pin
  numbers of \<open>main.h\<close> where the call names one.\<close>

datatype pin_mode = INPUT | OUTPUT

datatype event =
    SerialBegin nat
  | PinMode nat pin_mode
  | SerialWrite string
  | AnalogWrite nat int
  | ServoWrite angle
  | ServoAttach nat
  | ServoDetach
  | Delay nat

text \<open>The angles commanded to the servo, in order, from a run's events.\<close>

fun servo_angles :: "event list \<Rightarrow> angle list" where
  "servo_angles [] = []"
| "servo_angles (ServoWrite a # es) = a # servo_angles es"
| "servo_angles (_ # es) = servo_angles es"

text \<open>The total \<open>delay\<close> time in milliseconds of a run's events.\<close>

fun delay_total :: "event list \<Rightarrow> nat" where
  "delay_total [] = 0"
| "delay_total (Delay d # es) = d + delay_total es"
| "delay_total (_ # es) = delay_total es"

lemma servo_angles_append [simp, fb_simps]:
  "servo_angles (xs @ ys) = servo_angles xs @ servo_angles ys"
  by (induction xs rule: servo_angles.induct) simp_all

lemma delay_total_append [simp, fb_simps]:
  "delay_total (xs @ ys) = delay_total xs + delay_total ys"
  by (induction xs rule: delay_total.induct) simp_all

lemmas angle_defs [fb_simps] = CLOSED_ANGLE_def OPEN_ANGLE_def

end
