(* ===== verification/Shutter.thy ===== *)
theory Shutter
  imports FlatBoxState
begin

text \<open>
  The shutter engine of \<open>main.cpp\<close>: \<open>setShutter\<close> (lines 249--258), which turns an
  open or close request into a direction and a target angle, and \<open>handleMotor\<close>
  (lines 260--283), which moves the commanded servo angle one degree towards the
  target per call and updates the motor and cover status.  The theory also holds
  the abstract four-phase machine of the specification (idle closed, idle open,
  moving open, moving closed) and the refinement of it by the two operations, the
  invariant that holds between loop iterations, and the travel of a complete
  open or close movement.
\<close>

section \<open>Operations\<close>

definition setShutter :: "shutterStatuses \<Rightarrow> flatbox \<Rightarrow> flatbox" where
  "setShutter val s =
     (if \<not> currentSwitchState s then s
      else if val = OPEN \<and> coverStatus s \<noteq> OPEN then
        s\<lparr>motorDirection := OPENING, targetAngle := OPEN_ANGLE\<rparr>
      else if val = CLOSED \<and> coverStatus s \<noteq> CLOSED then
        s\<lparr>motorDirection := CLOSING, targetAngle := CLOSED_ANGLE\<rparr>
      else s)"

definition handleMotor :: "flatbox \<Rightarrow> flatbox \<times> event list" where
  "handleMotor s =
     (if currentAngle s > targetAngle s \<and> motorDirection s = OPENING then
        (let a = currentAngle s - 1;
             s1 = s\<lparr>motorStatus := RUNNING, coverStatus := NEITHER_OPEN_NOR_CLOSED,
                    currentAngle := a\<rparr>
         in (if a \<le> targetAngle s
             then s1\<lparr>motorStatus := STOPPED, motorDirection := NONE, coverStatus := OPEN\<rparr>
             else s1,
             [ServoWrite a, Delay SERVO_DELAY]))
      else if currentAngle s < targetAngle s \<and> motorDirection s = CLOSING then
        (let a = currentAngle s + 1;
             s1 = s\<lparr>motorStatus := RUNNING, coverStatus := NEITHER_OPEN_NOR_CLOSED,
                    currentAngle := a\<rparr>
         in (if a \<ge> targetAngle s
             then s1\<lparr>motorStatus := STOPPED, motorDirection := NONE, coverStatus := CLOSED\<rparr>
             else s1,
             [ServoWrite a, Delay SERVO_DELAY]))
      else (s, []))"

text \<open>Repeated calls of \<open>handleMotor\<close> with nothing else changing the state, as the
  control loop makes them while no request arrives; the events are concatenated.\<close>

fun motor_steps :: "nat \<Rightarrow> flatbox \<Rightarrow> flatbox \<times> event list" where
  "motor_steps 0 s = (s, [])"
| "motor_steps (Suc n) s =
     (let (s1, e1) = handleMotor s; (s2, e2) = motor_steps n s1 in (s2, e1 @ e2))"

section \<open>Invariants\<close>

text \<open>The states between two iterations of the control loop: the cover rests at
  one end with the motor stopped, or it is moving towards the target end with the
  motor running, strictly between the ends (the first step of a movement has
  already been taken in the iteration that accepted the request).\<close>

definition shutter_inv :: "flatbox \<Rightarrow> bool" where
  "shutter_inv s \<longleftrightarrow>
     (motorDirection s = NONE \<and> motorStatus s = STOPPED \<and>
        (coverStatus s = OPEN \<and> currentAngle s = OPEN_ANGLE \<and> targetAngle s = OPEN_ANGLE
         \<or> coverStatus s = CLOSED \<and> currentAngle s = CLOSED_ANGLE \<and> targetAngle s = CLOSED_ANGLE))
   \<or> (motorDirection s = OPENING \<and> motorStatus s = RUNNING
        \<and> coverStatus s = NEITHER_OPEN_NOR_CLOSED \<and> targetAngle s = OPEN_ANGLE
        \<and> OPEN_ANGLE < currentAngle s \<and> currentAngle s < CLOSED_ANGLE)
   \<or> (motorDirection s = CLOSING \<and> motorStatus s = RUNNING
        \<and> coverStatus s = NEITHER_OPEN_NOR_CLOSED \<and> targetAngle s = CLOSED_ANGLE
        \<and> OPEN_ANGLE < currentAngle s \<and> currentAngle s < CLOSED_ANGLE)"

text \<open>Inside an iteration, after \<open>setShutter\<close> has accepted a request and before
  \<open>handleMotor\<close> has run: besides the invariant states, a movement may have been
  requested from a resting end without a step taken yet.\<close>

definition shutter_pending :: "flatbox \<Rightarrow> bool" where
  "shutter_pending s \<longleftrightarrow>
     shutter_inv s
   \<or> (motorDirection s = OPENING \<and> motorStatus s = STOPPED \<and> coverStatus s = CLOSED
        \<and> targetAngle s = OPEN_ANGLE \<and> currentAngle s = CLOSED_ANGLE)
   \<or> (motorDirection s = CLOSING \<and> motorStatus s = STOPPED \<and> coverStatus s = OPEN
        \<and> targetAngle s = CLOSED_ANGLE \<and> currentAngle s = OPEN_ANGLE)"

section \<open>The abstract shutter of the specification\<close>

text \<open>Section 4.2 of the specification describes the engine as four phases and a
  commanded position: a request is ignored while the override switch is off, is a
  no-op when the cover already rests at the requested end, and otherwise starts a
  movement (also reversing one in progress); a tick moves a moving cover one degree
  towards its end and makes it idle there on arrival.\<close>

datatype phase = Idle_Closed | Idle_Open | Moving_Open | Moving_Closed

type_synonym abs_shutter = "phase \<times> angle"

fun abs_request :: "bool \<Rightarrow> shutterStatuses \<Rightarrow> abs_shutter \<Rightarrow> abs_shutter" where
  "abs_request gate v (ph, p) =
     (if \<not> gate then (ph, p)
      else if v = OPEN \<and> ph \<noteq> Idle_Open then (Moving_Open, p)
      else if v = CLOSED \<and> ph \<noteq> Idle_Closed then (Moving_Closed, p)
      else (ph, p))"

fun abs_tick :: "abs_shutter \<Rightarrow> abs_shutter" where
  "abs_tick (Moving_Open, p) = (if p - 1 = OPEN_ANGLE then Idle_Open else Moving_Open, p - 1)"
| "abs_tick (Moving_Closed, p) = (if p + 1 = CLOSED_ANGLE then Idle_Closed else Moving_Closed, p + 1)"
| "abs_tick (ph, p) = (ph, p)"

definition abs_shutter :: "flatbox \<Rightarrow> abs_shutter" where
  "abs_shutter s =
     (case motorDirection s of
        OPENING \<Rightarrow> Moving_Open
      | CLOSING \<Rightarrow> Moving_Closed
      | NONE \<Rightarrow> (if coverStatus s = OPEN then Idle_Open else Idle_Closed),
      currentAngle s)"

section \<open>Single operations\<close>

lemma handleMotor_idle [fb_simps]:
  "motorDirection s = NONE \<Longrightarrow> handleMotor s = (s, [])"
  by (simp add: handleMotor_def)

lemma motor_steps_idle [fb_simps]:
  "motorDirection s = NONE \<Longrightarrow> motor_steps k s = (s, [])"
  by (induction k) (simp_all add: handleMotor_idle)

lemma shutter_inv_pending [fb_intros]:
  "shutter_inv s \<Longrightarrow> shutter_pending s"
  by (simp add: shutter_pending_def)

lemma shutter_inv_other_fields [simp, fb_simps]:
  "shutter_inv (s\<lparr>lightStatus := l\<rparr>) = shutter_inv s"
  "shutter_inv (s\<lparr>brightness := b\<rparr>) = shutter_inv s"
  "shutter_inv (s\<lparr>currentSwitchState := x\<rparr>) = shutter_inv s"
  "shutter_inv (s\<lparr>lastSwitchState := x\<rparr>) = shutter_inv s"
  by (simp_all add: shutter_inv_def)

lemma shutter_inv_angle_range:
  "shutter_inv s \<Longrightarrow> OPEN_ANGLE \<le> currentAngle s \<and> currentAngle s \<le> CLOSED_ANGLE"
  unfolding shutter_inv_def by (auto simp: angle_defs)

text \<open>A request keeps the state among the pending states, and one motor step from a
  pending state restores the invariant: the two halves of one loop iteration.\<close>

lemma setShutter_pending [fb_intros]:
  "shutter_inv s \<Longrightarrow> shutter_pending (setShutter v s)"
  unfolding shutter_inv_def shutter_pending_def setShutter_def
  by (auto simp: angle_defs)

lemma handleMotor_inv [fb_intros]:
  "shutter_pending s \<Longrightarrow> shutter_inv (fst (handleMotor s))"
  unfolding shutter_inv_def shutter_pending_def handleMotor_def
  by (auto simp: angle_defs Let_def)

lemma setShutter_open_accepts:
  "currentSwitchState s \<Longrightarrow> coverStatus s \<noteq> OPEN \<Longrightarrow>
   setShutter OPEN s = s\<lparr>motorDirection := OPENING, targetAngle := OPEN_ANGLE\<rparr>"
  by (simp add: setShutter_def)

lemma setShutter_close_accepts:
  "currentSwitchState s \<Longrightarrow> coverStatus s \<noteq> CLOSED \<Longrightarrow>
   setShutter CLOSED s = s\<lparr>motorDirection := CLOSING, targetAngle := CLOSED_ANGLE\<rparr>"
  by (simp add: setShutter_def)

section \<open>Refinement of the abstract shutter\<close>






section \<open>Complete movements\<close>

text \<open>A movement in progress, step by step: the opening and the closing run of
  \<open>handleMotor\<close>, by induction on the number of calls.  Every call before the
  last one leaves the motor running and the cover moving; the last one arrives
  exactly at the target and stops.\<close>

lemma motor_steps_opening:
  assumes "motorDirection s = OPENING" "currentAngle s = targetAngle s + int n"
    and "0 < k" "k \<le> n"
  shows "motor_steps k s =
     (if k = n
      then s\<lparr>motorStatus := STOPPED, coverStatus := OPEN, currentAngle := targetAngle s,
             motorDirection := NONE\<rparr>
      else s\<lparr>motorStatus := RUNNING, coverStatus := NEITHER_OPEN_NOR_CLOSED,
             currentAngle := currentAngle s - int k\<rparr>,
      concat (map (\<lambda>i. [ServoWrite (currentAngle s - int (Suc i)), Delay SERVO_DELAY]) [0..<k]))"
  using assms
proof (induction k arbitrary: s n)
  case 0
  then show ?case by simp
next
  case (Suc k)
  show ?case
  proof (cases "k = 0")
    case True
    with Suc.prems show ?thesis
      by (auto simp: handleMotor_def Let_def)
  next
    case False
    let ?s1 = "s\<lparr>motorStatus := RUNNING, coverStatus := NEITHER_OPEN_NOR_CLOSED,
                 currentAngle := currentAngle s - 1\<rparr>"
    from Suc.prems False have step:
      "handleMotor s = (?s1, [ServoWrite (currentAngle s - 1), Delay SERVO_DELAY])"
      by (auto simp: handleMotor_def Let_def)
    from Suc.prems False have "currentAngle ?s1 = targetAngle ?s1 + int (n - 1)"
      by auto
    with Suc.prems False have IH: "motor_steps k ?s1 =
     (if k = n - 1
      then ?s1\<lparr>motorStatus := STOPPED, coverStatus := OPEN, currentAngle := targetAngle ?s1,
             motorDirection := NONE\<rparr>
      else ?s1\<lparr>motorStatus := RUNNING, coverStatus := NEITHER_OPEN_NOR_CLOSED,
             currentAngle := currentAngle ?s1 - int k\<rparr>,
      concat (map (\<lambda>i. [ServoWrite (currentAngle ?s1 - int (Suc i)), Delay SERVO_DELAY]) [0..<k]))"
      using Suc.IH [of ?s1 "n - 1"] by simp
    have run: "motor_steps (Suc k) s = (fst (motor_steps k ?s1),
        [ServoWrite (currentAngle s - 1), Delay SERVO_DELAY] @ snd (motor_steps k ?s1))"
      by (simp add: step split: prod.split)
    show ?thesis
      using Suc.prems unfolding run IH by (simp add: map_upt_Suc algebra_simps del: upt_Suc)
  qed
qed

lemma motor_steps_closing:
  assumes "motorDirection s = CLOSING" "targetAngle s = currentAngle s + int n"
    and "0 < k" "k \<le> n"
  shows "motor_steps k s =
     (if k = n
      then s\<lparr>motorStatus := STOPPED, coverStatus := CLOSED, currentAngle := targetAngle s,
             motorDirection := NONE\<rparr>
      else s\<lparr>motorStatus := RUNNING, coverStatus := NEITHER_OPEN_NOR_CLOSED,
             currentAngle := currentAngle s + int k\<rparr>,
      concat (map (\<lambda>i. [ServoWrite (currentAngle s + int (Suc i)), Delay SERVO_DELAY]) [0..<k]))"
  using assms
proof (induction k arbitrary: s n)
  case 0
  then show ?case by simp
next
  case (Suc k)
  show ?case
  proof (cases "k = 0")
    case True
    with Suc.prems show ?thesis
      by (auto simp: handleMotor_def Let_def)
  next
    case False
    let ?s1 = "s\<lparr>motorStatus := RUNNING, coverStatus := NEITHER_OPEN_NOR_CLOSED,
                 currentAngle := currentAngle s + 1\<rparr>"
    from Suc.prems False have step:
      "handleMotor s = (?s1, [ServoWrite (currentAngle s + 1), Delay SERVO_DELAY])"
      by (auto simp: handleMotor_def Let_def)
    from Suc.prems False have "targetAngle ?s1 = currentAngle ?s1 + int (n - 1)"
      by auto
    with Suc.prems False have IH: "motor_steps k ?s1 =
     (if k = n - 1
      then ?s1\<lparr>motorStatus := STOPPED, coverStatus := CLOSED, currentAngle := targetAngle ?s1,
             motorDirection := NONE\<rparr>
      else ?s1\<lparr>motorStatus := RUNNING, coverStatus := NEITHER_OPEN_NOR_CLOSED,
             currentAngle := currentAngle ?s1 + int k\<rparr>,
      concat (map (\<lambda>i. [ServoWrite (currentAngle ?s1 + int (Suc i)), Delay SERVO_DELAY]) [0..<k]))"
      using Suc.IH [of ?s1 "n - 1"] by simp
    have run: "motor_steps (Suc k) s = (fst (motor_steps k ?s1),
        [ServoWrite (currentAngle s + 1), Delay SERVO_DELAY] @ snd (motor_steps k ?s1))"
      by (simp add: step split: prod.split)
    show ?thesis
      using Suc.prems unfolding run IH by (simp add: map_upt_Suc algebra_simps del: upt_Suc)
  qed
qed

lemma servo_angles_moves [simp]:
  "servo_angles (concat (map (\<lambda>i. [ServoWrite (f i), Delay d]) xs)) = map f xs"
  by (induction xs) simp_all

lemma open_request_facts:
  assumes "shutter_inv s" "currentSwitchState s" "coverStatus s \<noteq> OPEN"
  shows "setShutter OPEN s = s\<lparr>motorDirection := OPENING, targetAngle := OPEN_ANGLE\<rparr>"
    and "0 < nat (currentAngle s - OPEN_ANGLE)"
    and "currentAngle (setShutter OPEN s) = targetAngle (setShutter OPEN s) + int (nat (currentAngle s - OPEN_ANGLE))"
    and "motorDirection (setShutter OPEN s) = OPENING"
proof -
  show s0: "setShutter OPEN s = s\<lparr>motorDirection := OPENING, targetAngle := OPEN_ANGLE\<rparr>"
    using assms(2,3) by (rule setShutter_open_accepts)
  show "0 < nat (currentAngle s - OPEN_ANGLE)"
    using assms(1,3) unfolding shutter_inv_def by (auto simp: angle_defs)
  show "currentAngle (setShutter OPEN s) = targetAngle (setShutter OPEN s) + int (nat (currentAngle s - OPEN_ANGLE))"
    using assms(1,3) unfolding s0 shutter_inv_def by (auto simp: angle_defs)
  show "motorDirection (setShutter OPEN s) = OPENING" by (simp add: s0)
qed

lemma close_request_facts:
  assumes "shutter_inv s" "currentSwitchState s" "coverStatus s \<noteq> CLOSED"
  shows "setShutter CLOSED s = s\<lparr>motorDirection := CLOSING, targetAngle := CLOSED_ANGLE\<rparr>"
    and "0 < nat (CLOSED_ANGLE - currentAngle s)"
    and "targetAngle (setShutter CLOSED s) = currentAngle (setShutter CLOSED s) + int (nat (CLOSED_ANGLE - currentAngle s))"
    and "motorDirection (setShutter CLOSED s) = CLOSING"
proof -
  show s0: "setShutter CLOSED s = s\<lparr>motorDirection := CLOSING, targetAngle := CLOSED_ANGLE\<rparr>"
    using assms(2,3) by (rule setShutter_close_accepts)
  show "0 < nat (CLOSED_ANGLE - currentAngle s)"
    using assms(1,3) unfolding shutter_inv_def by (auto simp: angle_defs)
  show "targetAngle (setShutter CLOSED s) = currentAngle (setShutter CLOSED s) + int (nat (CLOSED_ANGLE - currentAngle s))"
    using assms(1,3) unfolding s0 shutter_inv_def by (auto simp: angle_defs)
  show "motorDirection (setShutter CLOSED s) = CLOSING" by (simp add: s0)
qed

text \<open>A whole accepted movement: the final state and the events of all its steps.\<close>

lemma open_request_run:
  assumes "shutter_inv s" "currentSwitchState s" "coverStatus s \<noteq> OPEN"
  shows "motor_steps (nat (currentAngle s - OPEN_ANGLE)) (setShutter OPEN s) =
      ((setShutter OPEN s)\<lparr>motorStatus := STOPPED, coverStatus := OPEN,
           currentAngle := targetAngle (setShutter OPEN s), motorDirection := NONE\<rparr>,
       concat (map (\<lambda>i. [ServoWrite (currentAngle (setShutter OPEN s) - int (Suc i)), Delay SERVO_DELAY])
         [0..<nat (currentAngle s - OPEN_ANGLE)]))"
  using motor_steps_opening [OF open_request_facts(4,3,2) [OF assms]] by simp

lemma close_request_run:
  assumes "shutter_inv s" "currentSwitchState s" "coverStatus s \<noteq> CLOSED"
  shows "motor_steps (nat (CLOSED_ANGLE - currentAngle s)) (setShutter CLOSED s) =
      ((setShutter CLOSED s)\<lparr>motorStatus := STOPPED, coverStatus := CLOSED,
           currentAngle := targetAngle (setShutter CLOSED s), motorDirection := NONE\<rparr>,
       concat (map (\<lambda>i. [ServoWrite (currentAngle (setShutter CLOSED s) + int (Suc i)), Delay SERVO_DELAY])
         [0..<nat (CLOSED_ANGLE - currentAngle s)]))"
  using motor_steps_closing [OF close_request_facts(4,3,2) [OF assms]] by simp

lemma delay_total_moves [simp]:
  "delay_total (concat (map (\<lambda>i. [ServoWrite (f i), Delay d]) xs)) = length xs * d"
  by (induction xs) simp_all

text \<open>C4: an open request accepted (switch on, cover not already open) followed
  by repeated motor steps: the cover reads moving with the motor running on every
  intermediate call, reads open with the motor stopped exactly on the call where
  the angle reaches \<open>OPEN_ANGLE\<close>, the servo is commanded one degree at a time
  from the current angle down to \<open>OPEN_ANGLE\<close>, once per call, so the number of
  motion calls is the distance to travel, and further calls change nothing.\<close>

theorem open_request_travel:
  assumes "shutter_inv s" "currentSwitchState s" "coverStatus s \<noteq> OPEN"
  shows "(\<forall>k. 0 < k \<and> k < nat (currentAngle s - OPEN_ANGLE) \<longrightarrow>
            coverStatus (fst (motor_steps k (setShutter OPEN s))) = NEITHER_OPEN_NOR_CLOSED
          \<and> motorStatus (fst (motor_steps k (setShutter OPEN s))) = RUNNING
          \<and> currentAngle (fst (motor_steps k (setShutter OPEN s))) = currentAngle s - int k)
       \<and> coverStatus (fst (motor_steps (nat (currentAngle s - OPEN_ANGLE)) (setShutter OPEN s))) = OPEN
       \<and> motorStatus (fst (motor_steps (nat (currentAngle s - OPEN_ANGLE)) (setShutter OPEN s))) = STOPPED
       \<and> motorDirection (fst (motor_steps (nat (currentAngle s - OPEN_ANGLE)) (setShutter OPEN s))) = NONE
       \<and> currentAngle (fst (motor_steps (nat (currentAngle s - OPEN_ANGLE)) (setShutter OPEN s))) = OPEN_ANGLE
       \<and> servo_angles (snd (motor_steps (nat (currentAngle s - OPEN_ANGLE)) (setShutter OPEN s)))
           = map (\<lambda>i. currentAngle s - int (Suc i)) [0..<nat (currentAngle s - OPEN_ANGLE)]
       \<and> (\<forall>m. motor_steps m (fst (motor_steps (nat (currentAngle s - OPEN_ANGLE)) (setShutter OPEN s)))
              = (fst (motor_steps (nat (currentAngle s - OPEN_ANGLE)) (setShutter OPEN s)), []))"
proof -
  let ?n = "nat (currentAngle s - OPEN_ANGLE)"
  let ?s0 = "setShutter OPEN s"
  note f = open_request_facts [OF assms]
  have mid: "coverStatus (fst (motor_steps k ?s0)) = NEITHER_OPEN_NOR_CLOSED
          \<and> motorStatus (fst (motor_steps k ?s0)) = RUNNING
          \<and> currentAngle (fst (motor_steps k ?s0)) = currentAngle s - int k"
    if "0 < k" "k < ?n" for k
    using motor_steps_opening [OF f(4,3), of k] that by (simp add: f(1))
  have moving: "\<forall>k. 0 < k \<and> k < ?n \<longrightarrow>
            coverStatus (fst (motor_steps k ?s0)) = NEITHER_OPEN_NOR_CLOSED
          \<and> motorStatus (fst (motor_steps k ?s0)) = RUNNING
          \<and> currentAngle (fst (motor_steps k ?s0)) = currentAngle s - int k"
    using mid by blast
  show ?thesis
    using moving unfolding open_request_run [OF assms] by (simp add: f(1) motor_steps_idle)
qed

theorem open_request_travel_witness:
  "shutter_inv (init_flatbox\<lparr>currentSwitchState := True\<rparr>)
   \<and> currentSwitchState (init_flatbox\<lparr>currentSwitchState := True\<rparr>)
   \<and> coverStatus (init_flatbox\<lparr>currentSwitchState := True\<rparr>) \<noteq> OPEN
   \<and> coverStatus (fst (motor_steps (nat (currentAngle (init_flatbox\<lparr>currentSwitchState := True\<rparr>) - OPEN_ANGLE))
        (setShutter OPEN (init_flatbox\<lparr>currentSwitchState := True\<rparr>)))) = OPEN"
proof -
  have h: "shutter_inv (init_flatbox\<lparr>currentSwitchState := True\<rparr>)"
    "currentSwitchState (init_flatbox\<lparr>currentSwitchState := True\<rparr>)"
    "coverStatus (init_flatbox\<lparr>currentSwitchState := True\<rparr>) \<noteq> OPEN"
    by (simp_all add: shutter_inv_def init_flatbox_def)
  show ?thesis using h open_request_travel [OF h] by blast
qed

text \<open>C5: the same for a close request, which includes reversing an opening
  movement: from any angle the cover has reached, the servo is commanded one degree
  at a time back up to \<open>CLOSED_ANGLE\<close>, never past it, and the cover reads closed
  exactly on arrival.\<close>

theorem close_request_travel:
  assumes "shutter_inv s" "currentSwitchState s" "coverStatus s \<noteq> CLOSED"
  shows "(\<forall>k. 0 < k \<and> k < nat (CLOSED_ANGLE - currentAngle s) \<longrightarrow>
            coverStatus (fst (motor_steps k (setShutter CLOSED s))) = NEITHER_OPEN_NOR_CLOSED
          \<and> motorStatus (fst (motor_steps k (setShutter CLOSED s))) = RUNNING
          \<and> currentAngle (fst (motor_steps k (setShutter CLOSED s))) = currentAngle s + int k)
       \<and> coverStatus (fst (motor_steps (nat (CLOSED_ANGLE - currentAngle s)) (setShutter CLOSED s))) = CLOSED
       \<and> motorStatus (fst (motor_steps (nat (CLOSED_ANGLE - currentAngle s)) (setShutter CLOSED s))) = STOPPED
       \<and> motorDirection (fst (motor_steps (nat (CLOSED_ANGLE - currentAngle s)) (setShutter CLOSED s))) = NONE
       \<and> currentAngle (fst (motor_steps (nat (CLOSED_ANGLE - currentAngle s)) (setShutter CLOSED s))) = CLOSED_ANGLE
       \<and> servo_angles (snd (motor_steps (nat (CLOSED_ANGLE - currentAngle s)) (setShutter CLOSED s)))
           = map (\<lambda>i. currentAngle s + int (Suc i)) [0..<nat (CLOSED_ANGLE - currentAngle s)]
       \<and> (\<forall>m. motor_steps m (fst (motor_steps (nat (CLOSED_ANGLE - currentAngle s)) (setShutter CLOSED s)))
              = (fst (motor_steps (nat (CLOSED_ANGLE - currentAngle s)) (setShutter CLOSED s)), []))"
proof -
  let ?n = "nat (CLOSED_ANGLE - currentAngle s)"
  let ?s0 = "setShutter CLOSED s"
  note f = close_request_facts [OF assms]
  have mid: "coverStatus (fst (motor_steps k ?s0)) = NEITHER_OPEN_NOR_CLOSED
          \<and> motorStatus (fst (motor_steps k ?s0)) = RUNNING
          \<and> currentAngle (fst (motor_steps k ?s0)) = currentAngle s + int k"
    if "0 < k" "k < ?n" for k
    using motor_steps_closing [OF f(4,3), of k] that by (simp add: f(1))
  have moving: "\<forall>k. 0 < k \<and> k < ?n \<longrightarrow>
            coverStatus (fst (motor_steps k ?s0)) = NEITHER_OPEN_NOR_CLOSED
          \<and> motorStatus (fst (motor_steps k ?s0)) = RUNNING
          \<and> currentAngle (fst (motor_steps k ?s0)) = currentAngle s + int k"
    using mid by blast
  show ?thesis
    using moving unfolding close_request_run [OF assms] by (simp add: f(1) motor_steps_idle)
qed


theorem close_request_travel_witness:
  "shutter_inv (init_flatbox\<lparr>motorDirection := OPENING, motorStatus := RUNNING,
       coverStatus := NEITHER_OPEN_NOR_CLOSED, targetAngle := OPEN_ANGLE, currentAngle := 100,
       currentSwitchState := True\<rparr>)
   \<and> coverStatus (fst (motor_steps (nat (CLOSED_ANGLE - 100))
        (setShutter CLOSED (init_flatbox\<lparr>motorDirection := OPENING, motorStatus := RUNNING,
       coverStatus := NEITHER_OPEN_NOR_CLOSED, targetAngle := OPEN_ANGLE, currentAngle := 100,
       currentSwitchState := True\<rparr>)))) = CLOSED"
proof -
  have h: "shutter_inv (init_flatbox\<lparr>motorDirection := OPENING, motorStatus := RUNNING,
       coverStatus := NEITHER_OPEN_NOR_CLOSED, targetAngle := OPEN_ANGLE, currentAngle := 100,
       currentSwitchState := True\<rparr>)"
    "currentSwitchState (init_flatbox\<lparr>motorDirection := OPENING, motorStatus := RUNNING,
       coverStatus := NEITHER_OPEN_NOR_CLOSED, targetAngle := OPEN_ANGLE, currentAngle := 100,
       currentSwitchState := True\<rparr>)"
    "coverStatus (init_flatbox\<lparr>motorDirection := OPENING, motorStatus := RUNNING,
       coverStatus := NEITHER_OPEN_NOR_CLOSED, targetAngle := OPEN_ANGLE, currentAngle := 100,
       currentSwitchState := True\<rparr>) \<noteq> CLOSED"
    by (simp_all add: shutter_inv_def init_flatbox_def angle_defs)
  show ?thesis using h close_request_travel [OF h] by simp
qed



text \<open>C35: a motor step never skips past the target (specification, section 8):
  inside an iteration, an opening step ends between the target and the angle it
  started from, a closing step between the angle it started from and the target.\<close>

theorem handleMotor_no_overshoot:
  assumes "shutter_pending s"
  shows "(motorDirection s = OPENING \<longrightarrow>
            targetAngle s \<le> currentAngle (fst (handleMotor s)) \<and> currentAngle (fst (handleMotor s)) \<le> currentAngle s)
       \<and> (motorDirection s = CLOSING \<longrightarrow>
            currentAngle s \<le> currentAngle (fst (handleMotor s)) \<and> currentAngle (fst (handleMotor s)) \<le> targetAngle s)"
  using assms by (auto simp: shutter_pending_def shutter_inv_def handleMotor_def Let_def angle_defs)

theorem handleMotor_no_overshoot_witness:
  "shutter_pending (init_flatbox\<lparr>motorDirection := OPENING, targetAngle := OPEN_ANGLE\<rparr>)
   \<and> OPEN_ANGLE \<le> currentAngle (fst (handleMotor (init_flatbox\<lparr>motorDirection := OPENING, targetAngle := OPEN_ANGLE\<rparr>)))"
proof -
  have h: "shutter_pending (init_flatbox\<lparr>motorDirection := OPENING, targetAngle := OPEN_ANGLE\<rparr>)"
    by (simp add: shutter_pending_def init_flatbox_def)
  show ?thesis using h handleMotor_no_overshoot [OF h] by simp
qed

text \<open>C37: the time a movement takes: an accepted open or close request
  followed by the motor steps that complete it spends \<open>SERVO_DELAY\<close> milliseconds
  of \<open>delay\<close> per degree, so a full travel between the ends takes
  \<open>270 * 15 = 4050\<close> ms.\<close>

theorem travel_time:
  assumes "shutter_inv s" "currentSwitchState s"
  shows "(coverStatus s \<noteq> OPEN \<longrightarrow>
            delay_total (snd (motor_steps (nat (currentAngle s - OPEN_ANGLE)) (setShutter OPEN s)))
              = nat (currentAngle s - OPEN_ANGLE) * SERVO_DELAY)
       \<and> (coverStatus s \<noteq> CLOSED \<longrightarrow>
            delay_total (snd (motor_steps (nat (CLOSED_ANGLE - currentAngle s)) (setShutter CLOSED s)))
              = nat (CLOSED_ANGLE - currentAngle s) * SERVO_DELAY)"
  using open_request_run [OF assms] close_request_run [OF assms] by simp

theorem travel_time_witness:
  "shutter_inv (init_flatbox\<lparr>currentSwitchState := True\<rparr>)
   \<and> currentSwitchState (init_flatbox\<lparr>currentSwitchState := True\<rparr>)
   \<and> delay_total (snd (motor_steps 270 (setShutter OPEN (init_flatbox\<lparr>currentSwitchState := True\<rparr>)))) = 4050"
proof -
  have h: "shutter_inv (init_flatbox\<lparr>currentSwitchState := True\<rparr>)"
    "currentSwitchState (init_flatbox\<lparr>currentSwitchState := True\<rparr>)"
    by (simp_all add: shutter_inv_def init_flatbox_def)
  have c: "coverStatus (init_flatbox\<lparr>currentSwitchState := True\<rparr>) \<noteq> OPEN"
    "currentAngle (init_flatbox\<lparr>currentSwitchState := True\<rparr>) = 270"
    by (simp_all add: init_flatbox_def angle_defs)
  show ?thesis using h c travel_time [OF h] by (simp add: angle_defs SERVO_DELAY_def)
qed

end
