(* ===== verification/CLib.thy ===== *)
theory CLib
  imports Complex_Main Prelude
begin

text \<open>
  The library calls \<open>handleSerial\<close> builds on, with the semantics the C standard
  and the Arduino core give them: \<open>Stream::readBytesUntil\<close> on the serial receive
  buffer, the zero-filled \<open>char str[20]\<close> read as C strings (\<open>str[1]\<close>,
  \<open>str + 2\<close>), \<open>atoi\<close>, the \<open>%d\<close> and \<open>%03d\<close> conversions of \<open>sprintf\<close>
  and the \<open>constrain\<close> macro.  Integers are unbounded here; the theories that use
  them prove that the values that occur fit the 16-bit \<open>int\<close> of the target.
  The lemmas are the round trips between printing and parsing and the length and
  range facts of the printed and parsed values.
\<close>

section \<open>Characters\<close>

definition NUL :: char where
  "NUL = CHR 0x00"

definition LF :: char where
  "LF = CHR 0x0A"

definition CR :: char where
  "CR = CHR 0x0D"

definition is_space :: "char \<Rightarrow> bool" where
  "is_space c \<longleftrightarrow> c = CHR '' '' \<or> (9 \<le> (of_char c :: nat) \<and> (of_char c :: nat) \<le> 13)"
  \<comment> \<open>\<open>isspace\<close> in the C locale: blank, \<open>\t \n \v \f \r\<close>\<close>

definition is_digit :: "char \<Rightarrow> bool" where
  "is_digit c \<longleftrightarrow> 48 \<le> (of_char c :: nat) \<and> (of_char c :: nat) \<le> 57"

definition digit_value :: "char \<Rightarrow> int" where
  "digit_value c = int (of_char c) - 48"

definition digit_char :: "nat \<Rightarrow> char" where
  "digit_char d = char_of (48 + d)"

section \<open>Reading the serial buffer\<close>

text \<open>\<open>Serial.readBytesUntil(t, buf, n)\<close> stores received bytes until it has
  stored \<open>n\<close> of them, reads the terminator \<open>t\<close> (consumed, not stored) or times
  out.  The receive buffer is the list of bytes that arrive before the timeout; the
  result is the stored bytes and the bytes left in the buffer.\<close>

fun read_bytes_until :: "char \<Rightarrow> nat \<Rightarrow> string \<Rightarrow> string \<times> string" where
  "read_bytes_until t 0 inp = ([], inp)"
| "read_bytes_until t (Suc n) [] = ([], [])"
| "read_bytes_until t (Suc n) (c # cs) =
     (if c = t then ([], cs)
      else (let (s, r) = read_bytes_until t n cs in (c # s, r)))"

text \<open>The buffer \<open>str\<close> is zero-filled by \<open>memset\<close> before the read, so a byte
  past the stored ones reads as NUL, and a C string starting in it ends at the first
  NUL.\<close>

definition c_index :: "string \<Rightarrow> nat \<Rightarrow> char" where
  "c_index s i = (if i < length s then s ! i else NUL)"

definition c_string :: "string \<Rightarrow> string" where
  "c_string s = takeWhile (\<lambda>c. c \<noteq> NUL) s"

section \<open>Parsing: atoi\<close>

fun digits_value :: "int \<Rightarrow> string \<Rightarrow> int" where
  "digits_value acc [] = acc"
| "digits_value acc (c # cs) =
     (if is_digit c then digits_value (10 * acc + digit_value c) cs else acc)"

definition atoi :: "string \<Rightarrow> int" where
  "atoi s =
     (case dropWhile is_space s of
        [] \<Rightarrow> 0
      | c # cs \<Rightarrow>
          (if c = CHR ''-'' then - digits_value 0 cs
           else if c = CHR ''+'' then digits_value 0 cs
           else digits_value 0 (c # cs)))"

text \<open>How many characters \<open>atoi\<close> consumes before the one that ends its scan
  (leading white space, an optional sign, the digits): it reads the character at
  this index, so a scan that reaches the end of an array without terminator reads
  past it.\<close>

definition atoi_scan :: "string \<Rightarrow> nat" where
  "atoi_scan s =
     (let r = dropWhile is_space s;
          k = (case r of [] \<Rightarrow> 0 | c # _ \<Rightarrow> if c = CHR ''-'' \<or> c = CHR ''+'' then 1 else 0)
      in length (takeWhile is_space s) + k + length (takeWhile is_digit (drop k r)))"

section \<open>Printing: sprintf %d and %03d\<close>

fun dec_digits :: "nat \<Rightarrow> string" where
  "dec_digits n = (if n < 10 then [digit_char n] else dec_digits (n div 10) @ [digit_char (n mod 10)])"

definition fmt_d :: "int \<Rightarrow> string" where
  "fmt_d v = (if v < 0 then CHR ''-'' # dec_digits (nat (- v)) else dec_digits (nat v))"

definition fmt_03d :: "int \<Rightarrow> string" where
  "fmt_03d v =
     (let sgn = (if v < 0 then [CHR ''-''] else []);
          ds = dec_digits (nat \<bar>v\<bar>)
      in sgn @ replicate (3 - length sgn - length ds) (CHR ''0'') @ ds)"
  \<comment> \<open>minimum field width 3, zero padding between the sign and the digits\<close>

section \<open>The constrain macro\<close>

definition constrain :: "int \<Rightarrow> int \<Rightarrow> int \<Rightarrow> int" where
  "constrain amt low high = (if amt < low then low else if amt > high then high else amt)"

section \<open>Conversion of a floating value to int\<close>

text \<open>The C conversion \<open>(int) x\<close> of a floating value truncates towards zero.  The
  value is taken as the exact real the \<open>double\<close> expression denotes; the header of
  the development says why the rounding of the \<open>double\<close> operations does not change
  the truncated result for the values that occur.\<close>

definition c_trunc :: "real \<Rightarrow> int" where
  "c_trunc x = (if 0 \<le> x then \<lfloor>x\<rfloor> else \<lceil>x\<rceil>)"

section \<open>Lemmas\<close>

declare dec_digits.simps [simp del]

lemma floor_le_round: "\<lfloor>x :: real\<rfloor> \<le> round x \<and> round x \<le> \<lfloor>x\<rfloor> + 1"
proof -
  have a: "\<lfloor>x\<rfloor> \<le> \<lfloor>x + 1 / 2\<rfloor>" by (rule floor_mono) simp
  have b: "\<lfloor>x + 1 / 2\<rfloor> \<le> \<lfloor>x + 1\<rfloor>" by (rule floor_mono) simp
  show ?thesis using a b by (simp add: round_def)
qed

lemma c_trunc_quotient:
  "0 \<le> a \<Longrightarrow> 0 < b \<Longrightarrow> c_trunc (of_int a / of_int b) = a div b"
  by (simp add: c_trunc_def floor_divide_of_int_eq)

lemma of_char_digit_char [simp]: "d < 10 \<Longrightarrow> (of_char (digit_char d) :: nat) = 48 + d"
  by (simp add: digit_char_def)

lemma digit_char_digit [simp]: "d < 10 \<Longrightarrow> is_digit (digit_char d)"
  by (simp add: is_digit_def)

lemma is_digit_not_special:
  "is_digit c \<Longrightarrow> \<not> is_space c \<and> c \<noteq> CHR ''-'' \<and> c \<noteq> CHR ''+'' \<and> c \<noteq> NUL"
  by (auto simp: is_digit_def is_space_def NUL_def)

lemma atoi_digits:
  "is_digit c \<Longrightarrow> atoi (c # cs) = digits_value 0 (c # cs)"
  using is_digit_not_special [of c] by (simp add: atoi_def)

lemma digit_value_char [simp]: "d < 10 \<Longrightarrow> digit_value (digit_char d) = int d"
  by (simp add: digit_value_def digit_char_def)

lemma dec_digits_all_digits: "\<forall>c \<in> set (dec_digits n). is_digit c"
  by (induction n rule: dec_digits.induct) (subst dec_digits.simps; simp)

lemma digits_value_append:
  "\<forall>c \<in> set ds. is_digit c \<Longrightarrow> digits_value acc (ds @ rest) = digits_value (digits_value acc ds) rest"
  by (induction ds arbitrary: acc) simp_all

lemma digits_value_dec_digits:
  "digits_value acc (dec_digits n) = acc * 10 ^ length (dec_digits n) + int n"
proof (induction n arbitrary: acc rule: dec_digits.induct)
  case (1 n)
  show ?case
  proof (cases "n < 10")
    case True
    then show ?thesis by (simp add: dec_digits.simps [of n])
  next
    case False
    have "digits_value acc (dec_digits n) =
          digits_value (digits_value acc (dec_digits (n div 10))) [digit_char (n mod 10)]"
      using False by (subst dec_digits.simps) (simp add: digits_value_append dec_digits_all_digits)
    also have "\<dots> = 10 * (acc * 10 ^ length (dec_digits (n div 10)) + int (n div 10)) + int (n mod 10)"
      using "1" False by simp
    also have "\<dots> = acc * 10 ^ length (dec_digits n) + int n"
    proof -
      have nm: "int n = 10 * int (n div 10) + int (n mod 10)"
        by (simp add: zdiv_int zmod_int)
      show ?thesis
        using False nm by (simp add: dec_digits.simps [of n] algebra_simps)
    qed
    finally show ?thesis .
  qed
qed

lemma dec_digits_nonempty: "dec_digits n \<noteq> []"
  by (subst dec_digits.simps) simp

lemma dec_digits_length_le: "n < 10 ^ k \<Longrightarrow> 0 < k \<Longrightarrow> length (dec_digits n) \<le> k"
proof (induction n arbitrary: k rule: dec_digits.induct)
  case (1 n)
  show ?case
  proof (cases "n < 10")
    case True
    with "1.prems" show ?thesis by (subst dec_digits.simps) simp
  next
    case False
    have "1 < k"
    proof (rule ccontr)
      assume "\<not> 1 < k"
      with "1.prems" have "k = 1" by simp
      with "1.prems" False show False by simp
    qed
    from "1.prems" have "n div 10 < 10 ^ (k - 1)"
      using \<open>1 < k\<close> by (cases k) (auto simp: less_mult_imp_div_less)
    with "1.IH" False \<open>1 < k\<close> have "length (dec_digits (n div 10)) \<le> k - 1" by simp
    with False \<open>1 < k\<close> show ?thesis by (subst dec_digits.simps) simp
  qed
qed

lemma digits_value_bounds:
  "0 \<le> acc \<Longrightarrow> acc \<le> digits_value acc s \<and> digits_value acc s < (acc + 1) * 10 ^ length s"
proof (induction s arbitrary: acc)
  case Nil
  then show ?case by simp
next
  case (Cons c cs)
  show ?case
  proof (cases "is_digit c")
    case True
    have d: "0 \<le> digit_value c" "digit_value c \<le> 9"
      using True by (auto simp: is_digit_def digit_value_def)
    with Cons.prems have "0 \<le> 10 * acc + digit_value c" by simp
    from Cons.IH [OF this] have lo: "10 * acc + digit_value c \<le> digits_value (10 * acc + digit_value c) cs"
      and lt: "digits_value (10 * acc + digit_value c) cs < (10 * acc + digit_value c + 1) * 10 ^ length cs"
      by auto
    have le: "(10 * acc + digit_value c + 1) * 10 ^ length cs \<le> ((acc + 1) * 10) * 10 ^ length cs"
      using d by (intro mult_right_mono) simp_all
    from lt le have "digits_value (10 * acc + digit_value c) cs < ((acc + 1) * 10) * 10 ^ length cs"
      by (rule order_less_le_trans)
    then have "digits_value acc (c # cs) < (acc + 1) * 10 ^ length (c # cs)"
      using True by (simp add: algebra_simps)
    with lo True d Cons.prems show ?thesis by simp
  next
    case False
    have "(acc + 1) * 1 \<le> (acc + 1) * 10 ^ length (c # cs)"
      using Cons.prems one_le_power [of "10::int" "length (c # cs)"] by (intro mult_left_mono) simp_all
    then have "acc < (acc + 1) * 10 ^ length (c # cs)"
      unfolding mult_1_right by linarith
    with False show ?thesis by simp
  qed
qed

lemma digits_value_dec [simp]: "digits_value 0 (dec_digits n) = int n"
  by (simp add: digits_value_dec_digits)

lemma atoi_fmt_d: "atoi (fmt_d v) = v"
proof (cases "v < 0")
  case True
  obtain c cs where cs: "dec_digits (nat (- v)) = c # cs"
    using dec_digits_nonempty by (cases "dec_digits (nat (- v))") auto
  have "\<not> is_space (CHR ''-'')" by (simp add: is_space_def)
  with True show ?thesis by (simp add: fmt_d_def atoi_def)
next
  case False
  obtain c cs where cs: "dec_digits (nat v) = c # cs"
    using dec_digits_nonempty by (cases "dec_digits (nat v)") auto
  have "is_digit c" using dec_digits_all_digits [of "nat v"] by (simp add: cs)
  then have "atoi (dec_digits (nat v)) = digits_value 0 (dec_digits (nat v))"
    unfolding cs by (rule atoi_digits)
  with False show ?thesis by (simp add: fmt_d_def)
qed

lemma atoi_all_digits:
  "s \<noteq> [] \<Longrightarrow> \<forall>c \<in> set s. is_digit c \<Longrightarrow> atoi s = digits_value 0 s"
  by (cases s) (simp_all add: atoi_digits)

lemma digit_zero [simp]: "is_digit (CHR ''0'')" "digit_value (CHR ''0'') = 0"
  by (simp_all add: is_digit_def digit_value_def)

lemma digits_value_zeros: "digits_value 0 (replicate k (CHR ''0'') @ rest) = digits_value 0 rest"
  by (induction k) simp_all

lemma fmt_03d_nonneg:
  "0 \<le> v \<Longrightarrow> fmt_03d v = replicate (3 - length (dec_digits (nat v))) (CHR ''0'') @ dec_digits (nat v)"
  by (simp add: fmt_03d_def Let_def)

lemma fmt_03d_length: "0 \<le> v \<Longrightarrow> v \<le> 999 \<Longrightarrow> length (fmt_03d v) = 3"
proof -
  assume "0 \<le> v" "v \<le> 999"
  then have "nat v < 10 ^ 3" by simp
  then have "length (dec_digits (nat v)) \<le> 3" by (rule dec_digits_length_le) simp
  with \<open>0 \<le> v\<close> show ?thesis by (simp add: fmt_03d_nonneg)
qed

lemma fmt_03d_digits: "0 \<le> v \<Longrightarrow> \<forall>c \<in> set (fmt_03d v). is_digit c"
  using dec_digits_all_digits [of "nat v"] by (auto simp: fmt_03d_nonneg)

lemma atoi_fmt_03d: "0 \<le> v \<Longrightarrow> atoi (fmt_03d v) = v"
proof -
  assume v: "0 \<le> v"
  have "fmt_03d v \<noteq> []" using dec_digits_nonempty [of "nat v"] v by (simp add: fmt_03d_nonneg)
  then have "atoi (fmt_03d v) = digits_value 0 (fmt_03d v)"
    using fmt_03d_digits [OF v] by (rule atoi_all_digits)
  also have "\<dots> = v" using v by (simp add: fmt_03d_nonneg digits_value_zeros)
  finally show ?thesis .
qed

lemma read_bytes_until_takeWhile:
  "fst (read_bytes_until t n inp) = takeWhile (\<lambda>c. c \<noteq> t) (take n inp)"
  by (induction t n inp rule: read_bytes_until.induct) (simp_all add: case_prod_beta)

lemma c_string_padded: "c_string (xs @ replicate n NUL) = c_string xs"
  by (induction xs) (simp_all add: c_string_def)

lemma read_bytes_until_consumes_all:
  "t \<notin> set l \<Longrightarrow> read_bytes_until t (length l) l = (l, [])"
  by (induction l) auto

lemma atoi_scan_NUL:
  assumes "NUL \<in> set s"
  shows "atoi_scan s < length s"
proof -
  let ?w = "takeWhile is_space s" and ?r = "dropWhile is_space s"
  have ls: "length s = length ?w + length ?r" by (metis length_append takeWhile_dropWhile_id)
  have nw: "NUL \<notin> set ?w" by (auto dest: set_takeWhileD simp: is_space_def NUL_def)
  have nr: "NUL \<in> set ?r"
    using assms nw set_append [of ?w ?r] takeWhile_dropWhile_id [of is_space s] by auto
  have dig: "\<not> is_digit NUL" and sp: "NUL \<noteq> CHR ''-''" "NUL \<noteq> CHR ''+''"
    by (simp_all add: is_digit_def NUL_def)
  show ?thesis
  proof (cases ?r)
    case Nil
    with nr show ?thesis by (metis empty_iff list.set(1))
  next
    case (Cons c cs)
    show ?thesis
    proof (cases "c = CHR ''-'' \<or> c = CHR ''+''")
      case True
      then have "NUL \<in> set cs" using nr Cons sp by auto
      then have l: "length (takeWhile is_digit cs) < length cs"
        using dig by (rule length_takeWhile_less_notin)
      have "atoi_scan s = length ?w + 1 + length (takeWhile is_digit cs)"
        using True Cons by (simp add: atoi_scan_def Let_def)
      then show ?thesis using l ls Cons by simp
    next
      case False
      have l: "length (takeWhile is_digit (c # cs)) < length (c # cs)"
        using nr Cons dig by (intro length_takeWhile_less_notin [of NUL]) simp_all
      have "atoi_scan s = length ?w + length (takeWhile is_digit (c # cs))"
        using False Cons by (simp add: atoi_scan_def Let_def)
      then show ?thesis using l ls Cons by simp
    qed
  qed
qed

lemma read_bytes_until_frame:
  "t \<notin> set s \<Longrightarrow> length s < n \<Longrightarrow> read_bytes_until t n (s @ t # rest) = (s, rest)"
proof (induction s arbitrary: n)
  case Nil
  then show ?case by (cases n) simp_all
next
  case (Cons c cs)
  then obtain m where "n = Suc m" by (cases n) auto
  with Cons show ?case by auto
qed

lemma read_line_literal:
  "CR \<notin> set l \<Longrightarrow> length l < 20 \<Longrightarrow> read_bytes_until CR 20 (l @ [CR]) = (l, [])"
  using read_bytes_until_frame [of CR l 20 "[]"] by simp

lemma read_bytes_until_length: "length (fst (read_bytes_until t n inp)) \<le> n"
  by (induction t n inp rule: read_bytes_until.induct) (auto split: prod.split)

lemma atoi_short_range:
  assumes "length s \<le> 3"
  shows "-99 \<le> atoi s \<and> atoi s \<le> 999"
proof -
  have b: "0 \<le> digits_value 0 x \<and> digits_value 0 x < 10 ^ length x" for x
    using digits_value_bounds [of 0 x] by simp
  have p: "(10::int) ^ length x \<le> 10 ^ k" if "length x \<le> k" for x :: string and k
    using that by (rule power_increasing) simp
  have len: "length (dropWhile is_space s) \<le> 3"
    using assms length_dropWhile_le [of is_space s] by linarith
  show ?thesis
  proof (cases "dropWhile is_space s")
    case Nil
    show ?thesis unfolding atoi_def Nil by simp
  next
    case (Cons c cs)
    with len have cs: "length cs \<le> 2" by simp
    have "digits_value 0 cs < 100" using b [of cs] p [OF cs] by simp
    moreover have "digits_value 0 (c # cs) < 1000" using b [of "c # cs"] p [of "c # cs" 3] cs by simp
    ultimately show ?thesis using b [of cs] b [of "c # cs"] unfolding atoi_def Cons by simp
  qed
qed

lemma digit_char_simps [simp]:
  "digit_char 0 = CHR ''0''" "digit_char (Suc 0) = CHR ''1''" "digit_char 2 = CHR ''2''"
  "digit_char 3 = CHR ''3''" "digit_char 4 = CHR ''4''" "digit_char 5 = CHR ''5''"
  "digit_char 6 = CHR ''6''" "digit_char 7 = CHR ''7''" "digit_char 8 = CHR ''8''"
  "digit_char 9 = CHR ''9''"
  by (simp_all add: digit_char_def char_of_eq_iff)

lemma fmt_d_codes: "fmt_d 10 = ''10''" "fmt_d 15 = ''15''" "fmt_d 19 = ''19''" "fmt_d 99 = ''99''"
  by (simp_all add: fmt_d_def dec_digits.simps)


end
