(* ===== verification/Dispatcher.thy ===== *)
theory Dispatcher
  imports Shutter CLib
begin

text \<open>
  The command dispatcher \<open>handleSerial\<close> of \<open>main.cpp\<close> (lines 103--247): it
  acts only once six bytes are buffered, reads one line up to the carriage return
  into the zero-filled \<open>char str[20]\<close>, switches on \<open>str[1]\<close> and answers
  through \<open>sprintf\<close> into \<open>char temp[10]\<close> and \<open>Serial.write\<close>.  The
  \<open>O\<close> and \<open>C\<close> commands call \<open>setShutter\<close> of the shutter engine; \<open>L\<close>,
  \<open>D\<close> and \<open>B\<close> drive the LED; \<open>B\<close> maps its payload through the
  brightness curve of line 197.  An unknown command letter falls out of the switch:
  no state change and no reply.
\<close>

section \<open>Replies and the brightness curve\<close>

text \<open>Every reply of the sketch has the shape \<open>"*<cmd>%d<payload>\n"\<close> with the
  device identity printed by \<open>%d\<close>.\<close>

definition reply :: "char \<Rightarrow> devices \<Rightarrow> string \<Rightarrow> string" where
  "reply cmd dev payload = CHR ''*'' # cmd # fmt_d (device_code dev) @ payload @ [LF]"

text \<open>Lines 196--197: \<open>db = atoi(data) - 3\<close> as a \<open>double\<close>,
  \<open>(int)(0.00394 * db * db)\<close>, clamped to 0..255.  The product is never negative,
  so the truncating cast is the floor; \<open>0.00394 * db * db\<close> is the rational
  \<open>394 * db * db / 100000\<close> (whose truncation agrees with the single- and the
  double-precision evaluation for every \<open>atoi\<close> value of a three-byte payload,
  \<open>-99..999\<close>: a non-integral value of the rational is at least \<open>10^-5\<close> away
  from the next integer, far above the rounding error at these magnitudes).\<close>

definition brightness_value :: "int \<Rightarrow> int" where
  "brightness_value v = (let db = v - 3 in constrain ((394 * db * db) div 100000) 0 255)"

text \<open>The same two lines read literally: \<open>db\<close> a \<open>double\<close>, the product with the
  constant \<open>0.00394\<close> evaluated in the reals and converted by \<open>(int)\<close>.  The
  integer form above is what the lemmas use; C24 proves the two equal.\<close>

definition brightness_exact :: "int \<Rightarrow> int" where
  "brightness_exact v =
     (let db = (of_int (v - 3) :: real) in constrain (c_trunc (0.00394 * db * db)) 0 255)"

text \<open>The curve as section 8 of the specification states it: the product rounded
  to the nearest integer, then clamped.  It is not code; C29 compares the code's
  curve with it.\<close>

definition spec_brightness :: "int \<Rightarrow> int" where
  "spec_brightness x = constrain (round ((0.00394 :: real) * of_int (x - 3) * of_int (x - 3))) 0 255"

section \<open>The command switch\<close>

definition dispatch :: "devices \<Rightarrow> char \<Rightarrow> string \<Rightarrow> flatbox \<Rightarrow> flatbox \<times> event list" where
  "dispatch dev cmd data s =
     (if cmd = CHR ''P'' then (s, [SerialWrite (reply CHR ''P'' dev ''OOO'')])
      else if cmd = CHR ''O'' then (setShutter OPEN s, [SerialWrite (reply CHR ''O'' dev ''OOO'')])
      else if cmd = CHR ''C'' then (setShutter CLOSED s, [SerialWrite (reply CHR ''C'' dev ''OOO'')])
      else if cmd = CHR ''L'' then
        (s\<lparr>lightStatus := ON\<rparr>, [SerialWrite (reply CHR ''L'' dev ''OOO''), AnalogWrite LED_PIN (brightness s)])
      else if cmd = CHR ''D'' then
        (s\<lparr>lightStatus := OFF\<rparr>, [SerialWrite (reply CHR ''D'' dev ''OOO''), AnalogWrite LED_PIN 0])
      else if cmd = CHR ''B'' then
        (let b = brightness_value (atoi data)
         in (s\<lparr>brightness := b\<rparr>,
             (if lightStatus s = ON then [AnalogWrite LED_PIN b] else [])
             @ [SerialWrite (reply CHR ''B'' dev (fmt_03d b))]))
      else if cmd = CHR ''J'' then (s, [SerialWrite (reply CHR ''J'' dev (fmt_03d (brightness s)))])
      else if cmd = CHR ''S'' then
        (s, [SerialWrite (reply CHR ''S'' dev
               (fmt_d (motor_code (motorStatus s)) @ fmt_d (light_code (lightStatus s))
                @ fmt_d (shutter_code (coverStatus s))))])
      else if cmd = CHR ''V'' then (s, [SerialWrite (reply CHR ''V'' dev ''003'')])
      else (s, []))"

text \<open>\<open>handleSerial\<close>: the state after the command, the events in order, and the
  bytes left in the receive buffer.\<close>

definition handleSerial :: "devices \<Rightarrow> string \<Rightarrow> flatbox \<Rightarrow> flatbox \<times> event list \<times> string" where
  "handleSerial dev inp s =
     (if length inp < 6 then (s, [], inp)
      else (let (str, rest) = read_bytes_until CR 20 inp;
                (s', evs) = dispatch dev (c_index str 1) (c_string (drop 2 str)) s
            in (s', evs, rest)))"

section \<open>Invariants\<close>

definition brightness_ok :: "flatbox \<Rightarrow> bool" where
  "brightness_ok s \<longleftrightarrow> 0 \<le> brightness s \<and> brightness s \<le> 255"


section \<open>Lemmas: framing, replies, brightness\<close>

lemma handleSerial_short:
  "length inp < 6 \<Longrightarrow> handleSerial dev inp s = (s, [], inp)"
  by (simp add: handleSerial_def)

lemma handleSerial_line:
  assumes "m \<noteq> CR" "c \<noteq> CR" "CR \<notin> set p" "length p \<le> 17" "6 \<le> length (m # c # p @ CR # rest)"
  shows "handleSerial dev (m # c # p @ CR # rest) s =
           (fst (dispatch dev c (c_string p) s), snd (dispatch dev c (c_string p) s), rest)"
proof -
  have rd: "read_bytes_until CR 20 ((m # c # p) @ CR # rest) = (m # c # p, rest)"
    using assms by (intro read_bytes_until_frame) auto
  show ?thesis
    using assms rd by (simp add: handleSerial_def c_index_def split: prod.split)
qed

lemma handleSerial_frame:
  assumes "m \<noteq> CR" "c \<noteq> CR" "CR \<notin> set p" "length p = 3"
  shows "handleSerial dev (m # c # p @ CR # rest) s =
           (fst (dispatch dev c (c_string p) s), snd (dispatch dev c (c_string p) s), rest)"
  using assms by (intro handleSerial_line) simp_all

lemma c_string_digits: "\<forall>c \<in> set p. is_digit c \<Longrightarrow> c_string p = p"
  using is_digit_not_special by (simp add: c_string_def)

lemma CR_neq [simp]: "CHR ''>'' \<noteq> CR" "CHR ''B'' \<noteq> CR" "CHR ''J'' \<noteq> CR" "CHR ''O'' \<noteq> CR"
  "CHR ''L'' \<noteq> CR" "CHR ''D'' \<noteq> CR" "CHR ''S'' \<noteq> CR" "CHR ''C'' \<noteq> CR"
  by (simp_all add: CR_def)

lemma c_string_OOO [simp]: "c_string ''OOO'' = ''OOO''"
  by (simp add: c_string_def NUL_def)

lemma constrain_id: "lo \<le> x \<Longrightarrow> x \<le> hi \<Longrightarrow> constrain x lo hi = x"
  by (simp add: constrain_def)

lemma read_bytes_until_consumes:
  "read_bytes_until t n inp = (str, r) \<Longrightarrow>
   \<exists>pre. inp = pre @ r \<and> length pre \<le> Suc n \<and> (0 < n \<longrightarrow> inp \<noteq> [] \<longrightarrow> pre \<noteq> [])"
proof (induction t n inp arbitrary: str r rule: read_bytes_until.induct)
  case (1 t inp)
  then show ?case by auto
next
  case (2 t n)
  then show ?case by auto
next
  case (3 t n c cs)
  show ?case
  proof (cases "c = t")
    case True
    with "3.prems" show ?thesis by (intro exI [of _ "[c]"]) auto
  next
    case False
    obtain s' r' where rd: "read_bytes_until t n cs = (s', r')" by fastforce
    with "3.prems" False have "r = r'" by simp
    from "3.IH" [OF False rd] obtain pre where "cs = pre @ r'" "length pre \<le> Suc n" by blast
    with \<open>r = r'\<close> show ?thesis by (intro exI [of _ "c # pre"]) simp
  qed
qed

lemma handleSerial_rest:
  "6 \<le> length inp \<Longrightarrow> read_bytes_until CR 20 inp = (str, r) \<Longrightarrow> snd (snd (handleSerial dev inp s)) = r"
  unfolding handleSerial_def by (simp only: not_less [symmetric] if_False Let_def) (simp add: case_prod_beta)

lemma fmt_d_digit: "0 \<le> v \<Longrightarrow> v < 10 \<Longrightarrow> fmt_d v = [digit_char (nat v)]"
  by (simp add: fmt_d_def dec_digits.simps)

lemma length_fmt_d_device [simp]: "length (fmt_d (device_code dev)) = 2"
  by (cases dev) (simp_all add: fmt_d_codes)

lemma length_fmt_d_motor [simp]: "length (fmt_d (motor_code m)) = 1"
  by (cases m) (simp_all add: fmt_d_digit)

lemma length_fmt_d_light [simp]: "length (fmt_d (light_code l)) = 1"
  by (cases l) (simp_all add: fmt_d_digit)

lemma length_fmt_d_shutter [simp]: "length (fmt_d (shutter_code c)) = 1"
  by (cases c) (simp_all add: fmt_d_digit)

lemma reply_length [simp]: "length (reply c dev pl) = length pl + 5"
  by (simp add: reply_def)

lemma reply_hd [simp]: "hd (reply c dev pl) = CHR ''*''"
  by (simp add: reply_def)

lemma reply_nth1 [simp]: "reply c dev pl ! Suc 0 = c"
  by (simp add: reply_def)

lemma reply_last [simp]: "last (reply c dev pl) = LF"
  by (simp add: reply_def)

lemma brightness_value_range: "0 \<le> brightness_value v \<and> brightness_value v \<le> 255"
  by (simp add: brightness_value_def constrain_def Let_def)

lemma curve_product_bounds:
  fixes x k :: int
  assumes "\<bar>x\<bar> \<le> k"
  shows "0 \<le> (394 * x * x) div 100000 \<and> (394 * x * x) div 100000 \<le> (394 * (k * k)) div 100000"
proof -
  have "x * x = \<bar>x\<bar> * \<bar>x\<bar>" by simp
  also have "\<dots> \<le> k * k" using assms by (intro mult_mono) simp_all
  finally have "394 * (x * x) \<le> 394 * (k * k)" by simp
  then have "394 * x * x \<le> 394 * (k * k)" by (simp only: mult.assoc)
  then have up: "(394 * x * x) div 100000 \<le> (394 * (k * k)) div 100000"
    by (rule zdiv_mono1) simp
  have "0 \<le> 394 * (x * x)" by simp
  then have "0 \<le> 394 * x * x" by (simp only: mult.assoc)
  then have "0 \<le> (394 * x * x) div 100000"
    by (metis pos_imp_zdiv_nonneg_iff zero_less_numeral)
  with up show ?thesis by blast
qed

lemma fst_dispatch_device:
  "fst (dispatch dev c d s) = fst (dispatch dev' c d s)"
  by (simp add: dispatch_def Let_def)

lemma dispatch_shutter_pending:
  "shutter_inv s \<Longrightarrow> shutter_pending (fst (dispatch dev c d s))"
  by (auto simp: dispatch_def Let_def setShutter_pending shutter_inv_pending)

lemma dispatch_brightness_ok:
  "brightness_ok s \<Longrightarrow> brightness_ok (fst (dispatch dev c d s))"
  using brightness_value_range [of "atoi d"]
  by (simp add: dispatch_def Let_def setShutter_def brightness_ok_def)

lemma dispatch_switch:
  "currentSwitchState (fst (dispatch dev c d s)) = currentSwitchState s
   \<and> lastSwitchState (fst (dispatch dev c d s)) = lastSwitchState s"
  by (simp add: dispatch_def Let_def setShutter_def)

lemma handleSerial_cases:
  "fst (handleSerial dev inp s) = s \<or> (\<exists>c d. fst (handleSerial dev inp s) = fst (dispatch dev c d s))"
  unfolding handleSerial_def by (simp add: case_prod_beta Let_def) blast

lemma handleSerial_shutter_pending:
  "shutter_inv s \<Longrightarrow> shutter_pending (fst (handleSerial dev inp s))"
  using handleSerial_cases [of dev inp s] dispatch_shutter_pending [of s dev]
  by (auto intro: shutter_inv_pending)

lemma handleSerial_brightness_ok:
  "brightness_ok s \<Longrightarrow> brightness_ok (fst (handleSerial dev inp s))"
  using handleSerial_cases [of dev inp s] dispatch_brightness_ok [of s dev] by auto

lemma handleSerial_switch:
  "currentSwitchState (fst (handleSerial dev inp s)) = currentSwitchState s
   \<and> lastSwitchState (fst (handleSerial dev inp s)) = lastSwitchState s"
  using handleSerial_cases [of dev inp s] dispatch_switch [of dev _ _ s] by auto

lemma curve_as_quotient:
  "(0.00394 :: real) * of_int x * of_int x = of_int (394 * x * x) / of_int 100000"
  by simp

lemma curve_numerator_nonneg: "0 \<le> 394 * (x - 3) * (x - 3 :: int)"
  by (metis mult.assoc mult_nonneg_nonneg zero_le_numeral zero_le_square)

section \<open>Properties of the dispatcher\<close>

text \<open>C6: \<open>>Bxxx\r\<close> followed by \<open>>JOOO\r\<close> in the receive buffer: the first call
  stores the corrected brightness of the payload, drives the LED at once only if
  the light is on, answers with the stored value as three digits and leaves exactly
  the second frame in the buffer; the second call answers \<open>J\<close> with the same
  three digits and changes nothing.  The three digits parse back to the stored
  value, so a client reads the value the device uses.\<close>

theorem brightness_set_get:
  assumes "length p = 3" "CR \<notin> set p"
  shows "handleSerial dev (''>B'' @ p @ CR # ''>JOOO'' @ CR # rest) s =
           (s\<lparr>brightness := brightness_value (atoi (c_string p))\<rparr>,
            (if lightStatus s = ON then [AnalogWrite LED_PIN (brightness_value (atoi (c_string p)))] else [])
            @ [SerialWrite (reply CHR ''B'' dev (fmt_03d (brightness_value (atoi (c_string p)))))],
            ''>JOOO'' @ CR # rest)
       \<and> handleSerial dev (''>JOOO'' @ CR # rest) (s\<lparr>brightness := brightness_value (atoi (c_string p))\<rparr>) =
           (s\<lparr>brightness := brightness_value (atoi (c_string p))\<rparr>,
            [SerialWrite (reply CHR ''J'' dev (fmt_03d (brightness_value (atoi (c_string p)))))], rest)
       \<and> atoi (fmt_03d (brightness_value (atoi (c_string p)))) = brightness_value (atoi (c_string p))
       \<and> length (fmt_03d (brightness_value (atoi (c_string p)))) = 3"
proof -
  have b: "handleSerial dev (CHR ''>'' # CHR ''B'' # p @ CR # ''>JOOO'' @ CR # rest) s =
      (fst (dispatch dev CHR ''B'' (c_string p) s), snd (dispatch dev CHR ''B'' (c_string p) s), ''>JOOO'' @ CR # rest)"
    using assms by (intro handleSerial_frame) simp_all
  have j: "handleSerial dev (CHR ''>'' # CHR ''J'' # ''OOO'' @ CR # rest) s' =
      (fst (dispatch dev CHR ''J'' ''OOO'' s'), snd (dispatch dev CHR ''J'' ''OOO'' s'), rest)" for s'
    using handleSerial_frame [of "CHR ''>''" "CHR ''J''" "''OOO''" dev rest s'] by (simp add: CR_def)
  have r: "0 \<le> brightness_value v \<and> brightness_value v \<le> 255" for v
    by (rule brightness_value_range)
  show ?thesis
    using b j r [of "atoi (c_string p)"]
    by (simp add: dispatch_def Let_def atoi_fmt_03d fmt_03d_length)
qed

theorem brightness_set_get_witness:
  "length ''128'' = 3 \<and> CR \<notin> set ''128''
   \<and> fst (handleSerial FLIP_FLAT (''>B'' @ ''128'' @ CR # ''>JOOO'' @ CR # []) init_flatbox)
     = init_flatbox\<lparr>brightness := 61\<rparr>"
proof -
  have h: "length ''128'' = 3" "CR \<notin> set ''128''" by (simp_all add: CR_def)
  have v: "brightness_value (atoi (c_string ''128'')) = 61"
    by (simp add: brightness_value_def atoi_def c_string_def NUL_def is_space_def is_digit_def
        digit_value_def constrain_def)
  show ?thesis
    using h brightness_set_get [OF h, of FLIP_FLAT "[]" init_flatbox] v by simp
qed

text \<open>C7: over the documented input range 0..255 the brightness curve of
  line 197 is exactly \<open>(394 (x - 3)^2) div 100000\<close>, the clamp never acts, and
  the largest stored value is 250: full brightness 255 is out of reach of every
  documented input.\<close>

theorem brightness_curve_documented_range:
  assumes "0 \<le> v" "v \<le> 255"
  shows "brightness_value v = (394 * (v - 3) * (v - 3)) div 100000 \<and> brightness_value v \<le> 250"
proof -
  have "\<bar>v - 3\<bar> \<le> 252" using assms by simp
  then have b: "0 \<le> (394 * (v - 3) * (v - 3)) div 100000"
    "(394 * (v - 3) * (v - 3)) div 100000 \<le> 250"
    using curve_product_bounds [of "v - 3" 252] by simp_all
  have "brightness_value v = constrain ((394 * (v - 3) * (v - 3)) div 100000) 0 255"
    by (simp only: brightness_value_def Let_def)
  also have "\<dots> = (394 * (v - 3) * (v - 3)) div 100000"
    using b by (simp only: constrain_def) simp
  finally show ?thesis using b by simp
qed

theorem brightness_curve_documented_range_witness:
  "0 \<le> (255::int) \<and> (255::int) \<le> 255 \<and> brightness_value 255 = 250"
proof -
  have "brightness_value 255 = (394 * (255 - 3) * (255 - 3)) div 100000 \<and> brightness_value 255 \<le> 250"
    by (rule brightness_curve_documented_range) simp_all
  then show ?thesis by simp
qed

text \<open>C8: \<open>D\<close> then \<open>L\<close> without a brightness command in between: the light goes
  off (LED duty 0) and on again at the stored brightness, which neither command
  changes.\<close>

theorem light_off_on_restores:
  "handleSerial dev (''>DOOO'' @ CR # ''>LOOO'' @ CR # rest) s =
     (s\<lparr>lightStatus := OFF\<rparr>, [SerialWrite (reply CHR ''D'' dev ''OOO''), AnalogWrite LED_PIN 0], ''>LOOO'' @ CR # rest)
   \<and> handleSerial dev (''>LOOO'' @ CR # rest) (s\<lparr>lightStatus := OFF\<rparr>) =
     (s\<lparr>lightStatus := ON\<rparr>, [SerialWrite (reply CHR ''L'' dev ''OOO''), AnalogWrite LED_PIN (brightness s)], rest)"
proof -
  have f: "handleSerial dev (CHR ''>'' # c # ''OOO'' @ CR # rest') s' =
      (fst (dispatch dev c ''OOO'' s'), snd (dispatch dev c ''OOO'' s'), rest')" if "c \<noteq> CR" for c rest' s'
    using handleSerial_frame [of "CHR ''>''" c "''OOO''" dev rest' s'] that by (simp add: CR_def)
  show ?thesis
    using f [of "CHR ''D''" "''>LOOO'' @ CR # rest" s] f [of "CHR ''L''" rest "s\<lparr>lightStatus := OFF\<rparr>"]
    by (simp add: dispatch_def)
qed

text \<open>C9: a frame whose command byte is none of the nine letters is consumed
  and ignored: no state change and no reply.\<close>

theorem unknown_command_silent:
  assumes "c \<notin> set ''POCLDBJSV''" "m \<noteq> CR" "c \<noteq> CR" "CR \<notin> set p" "length p = 3"
  shows "handleSerial dev (m # c # p @ CR # rest) s = (s, [], rest)"
  using handleSerial_frame [OF assms(2-5)] assms(1) by (simp add: dispatch_def)

theorem unknown_command_silent_witness:
  "CHR ''Z'' \<notin> set ''POCLDBJSV'' \<and> CHR ''>'' \<noteq> CR \<and> CHR ''Z'' \<noteq> CR \<and> CR \<notin> set ''OOO''
   \<and> length ''OOO'' = 3
   \<and> handleSerial FLIP_FLAT (CHR ''>'' # CHR ''Z'' # ''OOO'' @ CR # []) init_flatbox = (init_flatbox, [], [])"
proof -
  have h: "CHR ''Z'' \<notin> set ''POCLDBJSV''" "CHR ''>'' \<noteq> CR" "CHR ''Z'' \<noteq> CR" "CR \<notin> set ''OOO''"
    "length ''OOO'' = 3" by (simp_all add: CR_def)
  show ?thesis using h unknown_command_silent [OF h] by blast
qed

text \<open>C10: \<open>handleSerial\<close> leaves the buffer alone while fewer than six bytes are
  received, and otherwise consumes a non-empty prefix of at most 21 bytes (one line
  of at most 20 stored bytes and its terminator), so repeated calls drain any
  buffer.\<close>

theorem handleSerial_consumes:
  "(length inp < 6 \<longrightarrow> handleSerial dev inp s = (s, [], inp))
   \<and> (6 \<le> length inp \<longrightarrow>
        (\<exists>pre. inp = pre @ snd (snd (handleSerial dev inp s)) \<and> 0 < length pre \<and> length pre \<le> 21))"
proof (intro conjI impI)
  assume "length inp < 6"
  then show "handleSerial dev inp s = (s, [], inp)" by (simp add: handleSerial_def)
next
  assume long: "6 \<le> length inp"
  obtain str r where rd: "read_bytes_until CR 20 inp = (str, r)"
    by (cases "read_bytes_until CR 20 inp") blast
  have rest: "snd (snd (handleSerial dev inp s)) = r"
    using long rd by (rule handleSerial_rest)
  from read_bytes_until_consumes [OF rd] obtain pre where
    pre: "inp = pre @ r \<and> length pre \<le> Suc 20 \<and> (0 < (20::nat) \<longrightarrow> inp \<noteq> [] \<longrightarrow> pre \<noteq> [])"
    by (elim exE)
  from long have "inp \<noteq> []" by (cases inp) simp_all
  moreover have "0 < (20::nat)" by simp
  ultimately have ne: "pre \<noteq> []" using pre by blast
  from pre have i: "inp = pre @ r" by (rule conjunct1)
  from pre have l: "length pre \<le> 21" by linarith
  have "inp = pre @ snd (snd (handleSerial dev inp s))" by (subst rest) (rule i)
  moreover from ne have "0 < length pre" by (cases pre) simp_all
  ultimately have "inp = pre @ snd (snd (handleSerial dev inp s)) \<and> 0 < length pre \<and> length pre \<le> 21"
    using l by blast
  then show "\<exists>pre. inp = pre @ snd (snd (handleSerial dev inp s)) \<and> 0 < length pre \<and> length pre \<le> 21"
    by blast
qed

theorem handleSerial_consumes_witness:
  "\<exists>pre. ''>POOO'' @ [CR] = pre @ snd (snd (handleSerial FLIP_FLAT (''>POOO'' @ [CR]) init_flatbox))
     \<and> 0 < length pre \<and> length pre \<le> 21"
proof -
  have "6 \<le> length (''>POOO'' @ [CR])" by simp
  then show ?thesis using handleSerial_consumes [of "''>POOO'' @ [CR]" FLIP_FLAT init_flatbox] by blast
qed

text \<open>C11: every reply the dispatcher writes, in a state whose brightness is in
  0..255, is \<open>*\<close>, the command letter, \<dots>, \<open>\n\<close>, and at most 9 bytes long, so it fits
  \<open>char temp[10]\<close> with its terminating NUL.\<close>

theorem reply_fits_buffer:
  assumes "brightness_ok s" "SerialWrite r \<in> set (snd (dispatch dev c d s))"
  shows "length r < 10 \<and> hd r = CHR ''*'' \<and> r ! 1 = c \<and> last r = LF"
proof -
  have b: "length (fmt_03d (brightness_value (atoi d))) = 3"
    using brightness_value_range [of "atoi d"] by (simp add: fmt_03d_length)
  have j: "length (fmt_03d (brightness s)) = 3"
    using assms(1) by (simp add: brightness_ok_def fmt_03d_length)
  show ?thesis
    using assms(2) b j by (simp add: dispatch_def Let_def split: if_split_asm)
qed

theorem reply_fits_buffer_witness:
  "brightness_ok init_flatbox
   \<and> SerialWrite (reply CHR ''J'' FLIP_FLAT (fmt_03d 0)) \<in> set (snd (dispatch FLIP_FLAT CHR ''J'' ''OOO'' init_flatbox))
   \<and> length (reply CHR ''J'' FLIP_FLAT (fmt_03d 0)) < 10"
proof -
  have h: "brightness_ok init_flatbox"
    "SerialWrite (reply CHR ''J'' FLIP_FLAT (fmt_03d 0)) \<in> set (snd (dispatch FLIP_FLAT CHR ''J'' ''OOO'' init_flatbox))"
    by (simp_all add: brightness_ok_def init_flatbox_def dispatch_def)
  show ?thesis using h reply_fits_buffer [OF h] by blast
qed


text \<open>C17: the commands \<open>P\<close>, \<open>J\<close>, \<open>S\<close> and \<open>V\<close> only report: whatever
  their payload, they leave the state unchanged, consume their frame and write
  exactly one reply.\<close>

theorem read_only_commands:
  assumes "c \<in> set ''PJSV''" "m \<noteq> CR" "CR \<notin> set p" "length p = 3"
  shows "fst (handleSerial dev (m # c # p @ CR # rest) s) = s
       \<and> snd (snd (handleSerial dev (m # c # p @ CR # rest) s)) = rest
       \<and> length (fst (snd (handleSerial dev (m # c # p @ CR # rest) s))) = 1"
proof -
  have c: "c \<noteq> CR" using assms(1) by (auto simp: CR_def)
  show ?thesis
    using handleSerial_frame [OF assms(2) c assms(3,4)] assms(1) by (auto simp: dispatch_def)
qed

theorem read_only_commands_witness:
  "CHR ''V'' \<in> set ''PJSV'' \<and> CHR ''>'' \<noteq> CR \<and> CR \<notin> set ''OOO'' \<and> length ''OOO'' = 3
   \<and> fst (handleSerial FLIP_FLAT (CHR ''>'' # CHR ''V'' # ''OOO'' @ CR # []) init_flatbox) = init_flatbox"
proof -
  have h: "CHR ''V'' \<in> set ''PJSV''" "CHR ''>'' \<noteq> CR" "CR \<notin> set ''OOO''" "length ''OOO'' = 3"
    by (simp_all add: CR_def)
  show ?thesis using h read_only_commands [OF h, of FLIP_FLAT "[]" init_flatbox] by blast
qed

text \<open>C18: for the payload of a six-byte frame (at most three bytes) \<open>atoi\<close>
  returns a value in -99..999 and the truncated product of line 197 lies in
  0..3908: the \<open>(int)\<close> cast is defined on the 16-bit \<open>int\<close>, and the clamp to 255
  only ever cuts values of this range.\<close>

theorem brightness_cast_in_range:
  assumes "length d \<le> 3"
  shows "-99 \<le> atoi d \<and> atoi d \<le> 999
       \<and> 0 \<le> (394 * (atoi d - 3) * (atoi d - 3)) div 100000
       \<and> (394 * (atoi d - 3) * (atoi d - 3)) div 100000 \<le> 3908
       \<and> int16_ok ((394 * (atoi d - 3) * (atoi d - 3)) div 100000)"
proof -
  have r: "-99 \<le> atoi d" "atoi d \<le> 999" using atoi_short_range [OF assms] by auto
  then have "\<bar>atoi d - 3\<bar> \<le> 996" by simp
  then have "0 \<le> (394 * (atoi d - 3) * (atoi d - 3)) div 100000"
    "(394 * (atoi d - 3) * (atoi d - 3)) div 100000 \<le> 3908"
    using curve_product_bounds [of "atoi d - 3" 996] by simp_all
  with r show ?thesis by (auto intro!: int16_okI)
qed

theorem brightness_cast_in_range_witness:
  "length ''999'' \<le> 3 \<and> (394 * (atoi ''999'' - 3) * (atoi ''999'' - 3)) div 100000 \<le> 3908"
proof -
  have h: "length ''999'' \<le> 3" by simp
  show ?thesis using h brightness_cast_in_range [OF h] by blast
qed


text \<open>C29: the specification (section 8) says a set brightness \<open>x\<close> in 0..255 is
  stored as \<open>0.00394 (x - 3)^2\<close> rounded; the code truncates, so the stored value
  is the rounded one or one less (for \<open>>B128\<close> the code stores 61 where rounding
  gives 62).\<close>

theorem brightness_truncates:
  assumes "0 \<le> v" "v \<le> 255"
  shows "spec_brightness v - 1 \<le> brightness_value v \<and> brightness_value v \<le> spec_brightness v"
proof -
  let ?n = "394 * (v - 3) * (v - 3)"
  have "\<bar>v - 3\<bar> \<le> 252" using assms by simp
  then have b: "0 \<le> ?n div 100000" "?n div 100000 \<le> 250"
    using curve_product_bounds [of "v - 3" 252] by simp_all
  have q: "(0.00394 :: real) * of_int (v - 3) * of_int (v - 3) = of_int ?n / of_int 100000"
    by (rule curve_as_quotient)
  have f: "\<lfloor>(of_int ?n / of_int 100000 :: real)\<rfloor> = ?n div 100000" by (rule floor_divide_of_int_eq)
  have r: "?n div 100000 \<le> round (of_int ?n / of_int 100000 :: real)"
          "round (of_int ?n / of_int 100000 :: real) \<le> ?n div 100000 + 1"
    using floor_le_round [of "of_int ?n / of_int 100000"] f by simp_all
  have "brightness_value v = constrain (?n div 100000) 0 255"
    by (simp only: brightness_value_def Let_def)
  also have "\<dots> = ?n div 100000"
    using b by (simp only: constrain_def) simp
  finally have bv: "brightness_value v = ?n div 100000" .
  have sv: "spec_brightness v = round (of_int ?n / of_int 100000 :: real)"
    using b r by (simp only: spec_brightness_def q constrain_def) simp
  show ?thesis using bv sv r by simp
qed

theorem brightness_truncates_witness:
  "0 \<le> (128::int) \<and> (128::int) \<le> 255 \<and> brightness_value 128 = 61 \<and> spec_brightness 128 = 62
   \<and> spec_brightness 128 - 1 \<le> brightness_value 128"
proof -
  have h: "0 \<le> (128::int)" "(128::int) \<le> 255" by simp_all
  have v: "brightness_value 128 = 61" by (simp add: brightness_value_def constrain_def)
  have s: "spec_brightness 128 = 62" by (simp add: spec_brightness_def constrain_def round_def)
  show ?thesis using brightness_truncates [OF h] h v s by simp
qed

end
