(* ===== verification/ControlLoop.thy ===== *)
theory ControlLoop
  imports Dispatcher
begin

text \<open>
  The Arduino entry points of \<open>main.cpp\<close>: \<open>setup()\<close> (lines 78--87), run once,
  and \<open>loop()\<close> (lines 89--101), run forever: one call of \<open>handleSerial\<close>, one call
  of \<open>handleMotor\<close>, then the override switch is read and, on an edge, the servo is
  attached or detached.  The switch reading and the bytes in the serial receive
  buffer are the environment's inputs to an iteration.  The reachable states are
  those of every finite sequence of iterations after \<open>setup\<close>, for any inputs;
  the theory proves the status invariant on them, the 16-bit bounds of the globals,
  the order of effects inside one iteration, the switch gate and that an idle loop
  brings any movement to rest.
\<close>

section \<open>Entry points\<close>

text \<open>\<open>setup()\<close> (\<open>setup\<close> is an Isabelle command, hence the suffix): its calls in
  order, with the globals at their initialisers.\<close>

definition setup_sketch :: "flatbox \<times> event list" where
  "setup_sketch = (init_flatbox,
            [SerialBegin 9600, PinMode LED_PIN OUTPUT, PinMode SWITCH_PIN INPUT, AnalogWrite LED_PIN 0,
             ServoAttach SERVO_PIN, ServoWrite 180, Delay SERVO_INITIAL_WAIT, ServoDetach])"

text \<open>\<open>loop()\<close> with the level \<open>sw\<close> that \<open>digitalRead(SWITCH_PIN)\<close> returns in this
  iteration and the receive buffer \<open>inp\<close>; the result carries the bytes left.\<close>

definition loop :: "devices \<Rightarrow> bool \<Rightarrow> string \<Rightarrow> flatbox \<Rightarrow> flatbox \<times> event list \<times> string" where
  "loop dev sw inp s =
     (let (s1, e1, r1) = handleSerial dev inp s;
          (s2, e2) = handleMotor s1;
          s3 = s2\<lparr>currentSwitchState := sw\<rparr>
      in if sw \<noteq> lastSwitchState s3
         then (s3\<lparr>lastSwitchState := sw\<rparr>, e1 @ e2 @ [if sw then ServoAttach SERVO_PIN else ServoDetach], r1)
         else (s3, e1 @ e2, r1))"

section \<open>Runs and reachable states\<close>

text \<open>A run: each iteration gets a switch reading and the bytes that arrived
  since the previous one, appended to what the previous iteration left.\<close>

fun run :: "devices \<Rightarrow> (bool \<times> string) list \<Rightarrow> string \<Rightarrow> flatbox \<Rightarrow> flatbox \<times> event list \<times> string" where
  "run dev [] buf s = (s, [], buf)"
| "run dev ((sw, arrived) # ins) buf s =
     (let (s1, e1, r1) = loop dev sw (buf @ arrived) s;
          (s2, e2, r2) = run dev ins r1 s1
      in (s2, e1 @ e2, r2))"

inductive reachable :: "devices \<Rightarrow> flatbox \<Rightarrow> bool" for dev where
  start: "reachable dev (fst setup_sketch)"
| iterate: "reachable dev s \<Longrightarrow> reachable dev (fst (loop dev sw inp s))"

definition loop_inv :: "flatbox \<Rightarrow> bool" where
  "loop_inv s \<longleftrightarrow> shutter_inv s \<and> brightness_ok s"

text \<open>Iterations with an empty receive buffer and a steady switch level.\<close>

fun idle_run :: "devices \<Rightarrow> bool \<Rightarrow> nat \<Rightarrow> flatbox \<Rightarrow> flatbox" where
  "idle_run dev sw 0 s = s"
| "idle_run dev sw (Suc n) s = idle_run dev sw n (fst (loop dev sw [] s))"


section \<open>Lemmas: one iteration\<close>

lemma handleMotor_other_fields:
  "brightness (fst (handleMotor s)) = brightness s \<and> lightStatus (fst (handleMotor s)) = lightStatus s
   \<and> currentSwitchState (fst (handleMotor s)) = currentSwitchState s
   \<and> lastSwitchState (fst (handleMotor s)) = lastSwitchState s"
  by (simp add: handleMotor_def Let_def)

lemma loop_state:
  "fst (loop dev sw inp s) =
     (fst (handleMotor (fst (handleSerial dev inp s))))\<lparr>currentSwitchState := sw, lastSwitchState := sw\<rparr>"
  by (simp add: loop_def Let_def case_prod_beta)

lemma loop_inv_step:
  assumes "loop_inv s"
  shows "loop_inv (fst (loop dev sw inp s))"
proof -
  let ?s1 = "fst (handleSerial dev inp s)"
  from assms have "shutter_pending ?s1" "brightness_ok ?s1"
    by (simp_all add: loop_inv_def handleSerial_shutter_pending handleSerial_brightness_ok)
  then have "shutter_inv (fst (handleMotor ?s1))" "brightness_ok (fst (handleMotor ?s1))"
    by (simp_all add: handleMotor_inv brightness_ok_def handleMotor_other_fields)
  then show ?thesis
    by (simp add: loop_state loop_inv_def brightness_ok_def)
qed

lemma loop_inv_setup: "loop_inv (fst setup_sketch)"
  by (simp add: setup_sketch_def init_flatbox_def loop_inv_def shutter_inv_def brightness_ok_def)

lemma reachable_loop_inv: "reachable dev s \<Longrightarrow> loop_inv s"
proof (induction rule: reachable.induct)
  case start
  show ?case by (rule loop_inv_setup)
next
  case (iterate s sw inp)
  from iterate.IH show ?case by (rule loop_inv_step)
qed

lemma handleMotor_switch_update:
  "handleMotor (s\<lparr>currentSwitchState := a, lastSwitchState := b\<rparr>) =
     ((fst (handleMotor s))\<lparr>currentSwitchState := a, lastSwitchState := b\<rparr>, snd (handleMotor s))"
  by (simp add: handleMotor_def Let_def)

lemma motor_steps_switch_update:
  "fst (motor_steps k (s\<lparr>currentSwitchState := a, lastSwitchState := b\<rparr>)) =
     (fst (motor_steps k s))\<lparr>currentSwitchState := a, lastSwitchState := b\<rparr>"
proof (induction k arbitrary: s)
  case 0
  then show ?case by simp
next
  case (Suc k)
  then show ?case
    by (simp add: handleMotor_switch_update case_prod_beta)
qed

lemma motor_steps_Suc_state:
  "fst (motor_steps (Suc k) s) = fst (motor_steps k (fst (handleMotor s)))"
  by (simp add: case_prod_beta)

lemma idle_run_motor_steps:
  "0 < k \<Longrightarrow> idle_run dev sw k s =
     (fst (motor_steps k s))\<lparr>currentSwitchState := sw, lastSwitchState := sw\<rparr>"
proof (induction k arbitrary: s)
  case 0
  then show ?case by simp
next
  case (Suc k)
  have step: "fst (loop dev sw [] s) = (fst (handleMotor s))\<lparr>currentSwitchState := sw, lastSwitchState := sw\<rparr>"
    by (simp add: loop_state handleSerial_short)
  show ?case
  proof (cases "k = 0")
    case True
    then show ?thesis by (simp add: step case_prod_beta)
  next
    case False
    then show ?thesis
      using Suc.IH [of "fst (loop dev sw [] s)"]
      by (simp add: step motor_steps_switch_update motor_steps_Suc_state del: motor_steps.simps)
  qed
qed

lemma motor_steps_add: "fst (motor_steps (a + b) s) = fst (motor_steps b (fst (motor_steps a s)))"
proof (induction a arbitrary: s)
  case 0
  then show ?case by simp
next
  case (Suc a)
  show ?case using Suc.IH [of "fst (handleMotor s)"] by (simp only: add_Suc motor_steps_Suc_state)
qed

lemma idle_run_switch:
  "idle_run dev sw k (t\<lparr>currentSwitchState := sw, lastSwitchState := sw\<rparr>) =
     (fst (motor_steps k t))\<lparr>currentSwitchState := sw, lastSwitchState := sw\<rparr>"
proof (cases k)
  case 0
  then show ?thesis by simp
next
  case (Suc m)
  then show ?thesis by (simp only: idle_run_motor_steps motor_steps_switch_update) simp
qed

lemma loop_events:
  "snd (loop dev sw inp s) =
     (fst (snd (handleSerial dev inp s)) @ snd (handleMotor (fst (handleSerial dev inp s)))
      @ (if sw \<noteq> lastSwitchState s then [if sw then ServoAttach SERVO_PIN else ServoDetach] else []),
      snd (snd (handleSerial dev inp s)))"
  using handleSerial_switch [of dev inp s] handleMotor_other_fields [of "fst (handleSerial dev inp s)"]
  by (simp add: loop_def Let_def case_prod_beta)

lemma frame_OOO:
  "c \<noteq> CR \<Longrightarrow> handleSerial dev (CHR ''>'' # c # ''OOO'' @ CR # rest) s =
     (fst (dispatch dev c ''OOO'' s), snd (dispatch dev c ''OOO'' s), rest)"
  using handleSerial_frame [of "CHR ''>''" c "''OOO''" dev rest s] by (simp add: CR_def)

section \<open>Properties of the control loop\<close>

text \<open>C1: in every state the loop reaches from \<open>setup\<close>, whatever bytes arrive and
  however the override switch is set, the status the \<open>S\<close> command reports is
  consistent with the motor state: the cover reads open exactly when the servo
  angle is \<open>OPEN_ANGLE\<close> and no movement is in progress, closed exactly at
  \<open>CLOSED_ANGLE\<close> with no movement, the motor reads running exactly while a
  direction is set, a moving cover reads neither open nor closed, \<open>TIMED_OUT\<close>
  never occurs, the angle stays between the two ends and the brightness in 0..255.\<close>

theorem loop_status_consistent:
  assumes "reachable dev s"
  shows "(coverStatus s = OPEN \<longleftrightarrow> currentAngle s = OPEN_ANGLE \<and> motorDirection s = NONE)
       \<and> (coverStatus s = CLOSED \<longleftrightarrow> currentAngle s = CLOSED_ANGLE \<and> motorDirection s = NONE)
       \<and> (motorStatus s = RUNNING \<longleftrightarrow> motorDirection s \<noteq> NONE)
       \<and> (motorDirection s \<noteq> NONE \<longrightarrow> coverStatus s = NEITHER_OPEN_NOR_CLOSED)
       \<and> coverStatus s \<noteq> TIMED_OUT
       \<and> OPEN_ANGLE \<le> currentAngle s \<and> currentAngle s \<le> CLOSED_ANGLE
       \<and> 0 \<le> brightness s \<and> brightness s \<le> 255"
  using reachable_loop_inv [OF assms]
  unfolding loop_inv_def shutter_inv_def brightness_ok_def
  by (auto simp: angle_defs)

theorem loop_status_consistent_witness:
  "reachable FLIP_FLAT (fst setup_sketch)
   \<and> (coverStatus (fst setup_sketch) = CLOSED \<longleftrightarrow>
        currentAngle (fst setup_sketch) = CLOSED_ANGLE \<and> motorDirection (fst setup_sketch) = NONE)"
  using loop_status_consistent [OF reachable.start [of FLIP_FLAT]] reachable.start [of FLIP_FLAT] by blast

text \<open>C12: the \<open>int\<close> globals of every reachable state fit the 16-bit \<open>int\<close> of
  the AVR target, so storing them in a 16-bit word and reading it back as signed
  gives the same value: the unbounded integers of the model are the sketch's.\<close>

theorem loop_int16_bounds:
  assumes "reachable dev s"
  shows "int16_ok (currentAngle s) \<and> int16_ok (targetAngle s) \<and> int16_ok (brightness s)
       \<and> sint (as_int16 (currentAngle s)) = currentAngle s
       \<and> sint (as_int16 (targetAngle s)) = targetAngle s
       \<and> sint (as_int16 (brightness s)) = brightness s"
proof -
  have i: "loop_inv s" using assms by (rule reachable_loop_inv)
  then have "int16_ok (currentAngle s)" "int16_ok (targetAngle s)" "int16_ok (brightness s)"
    unfolding loop_inv_def shutter_inv_def brightness_ok_def
    by (auto simp: angle_defs intro!: int16_okI)
  then show ?thesis by simp
qed

theorem loop_int16_bounds_witness:
  "reachable FLIP_FLAT (fst setup_sketch) \<and> int16_ok (currentAngle (fst setup_sketch))"
  using loop_int16_bounds [OF reachable.start [of FLIP_FLAT]] reachable.start [of FLIP_FLAT] by blast

text \<open>C13: the iteration that receives \<open>>OOOO\r\<close> at a closed cover with the switch
  on answers first and then already takes the first motor step: the reply, one
  servo write one degree off \<open>CLOSED_ANGLE\<close> and the step delay, in this order, then
  the attach or detach of a switch edge.\<close>

theorem loop_request_then_step:
  assumes "shutter_inv s" "coverStatus s = CLOSED" "currentSwitchState s"
  shows "loop dev sw (''>OOOO'' @ CR # rest) s =
     (s\<lparr>motorStatus := RUNNING, coverStatus := NEITHER_OPEN_NOR_CLOSED, motorDirection := OPENING,
         targetAngle := OPEN_ANGLE, currentAngle := CLOSED_ANGLE - 1,
         currentSwitchState := sw, lastSwitchState := sw\<rparr>,
      [SerialWrite (reply CHR ''O'' dev ''OOO''), ServoWrite (CLOSED_ANGLE - 1), Delay SERVO_DELAY]
      @ (if sw \<noteq> lastSwitchState s then [if sw then ServoAttach SERVO_PIN else ServoDetach] else []),
      rest)"
proof -
  from assms(1,2) have rest: "motorDirection s = NONE" "currentAngle s = CLOSED_ANGLE"
    "targetAngle s = CLOSED_ANGLE" "motorStatus s = STOPPED"
    unfolding shutter_inv_def by auto
  have hs: "handleSerial dev (''>OOOO'' @ CR # rest) s =
      (s\<lparr>motorDirection := OPENING, targetAngle := OPEN_ANGLE\<rparr>, [SerialWrite (reply CHR ''O'' dev ''OOO'')], rest)"
    using frame_OOO [of "CHR ''O''" dev rest s] assms(2,3) by (simp add: dispatch_def setShutter_def)
  have hm: "handleMotor (s\<lparr>motorDirection := OPENING, targetAngle := OPEN_ANGLE\<rparr>) =
      (s\<lparr>motorDirection := OPENING, targetAngle := OPEN_ANGLE, motorStatus := RUNNING,
          coverStatus := NEITHER_OPEN_NOR_CLOSED, currentAngle := CLOSED_ANGLE - 1\<rparr>,
       [ServoWrite (CLOSED_ANGLE - 1), Delay SERVO_DELAY])"
    using rest by (simp add: handleMotor_def Let_def angle_defs)
  show ?thesis
    unfolding loop_def hs by (simp add: hm)
qed

theorem loop_request_then_step_witness:
  "shutter_inv (init_flatbox\<lparr>currentSwitchState := True, lastSwitchState := True\<rparr>) \<and> coverStatus (init_flatbox\<lparr>currentSwitchState := True, lastSwitchState := True\<rparr>) = CLOSED \<and> currentSwitchState (init_flatbox\<lparr>currentSwitchState := True, lastSwitchState := True\<rparr>)
   \<and> fst (snd (loop FLIP_FLAT True (''>OOOO'' @ CR # []) (init_flatbox\<lparr>currentSwitchState := True, lastSwitchState := True\<rparr>))) =
       [SerialWrite (reply CHR ''O'' FLIP_FLAT ''OOO''), ServoWrite (CLOSED_ANGLE - 1), Delay SERVO_DELAY]"
proof -
  have h: "shutter_inv (init_flatbox\<lparr>currentSwitchState := True, lastSwitchState := True\<rparr>)" "coverStatus (init_flatbox\<lparr>currentSwitchState := True, lastSwitchState := True\<rparr>) = CLOSED" "currentSwitchState (init_flatbox\<lparr>currentSwitchState := True, lastSwitchState := True\<rparr>)"
    by (simp_all add: shutter_inv_def init_flatbox_def)
  show ?thesis
    using h loop_request_then_step [OF h, of FLIP_FLAT True "[]"] by (simp add: init_flatbox_def)
qed

text \<open>C14: an open or close request is dropped while the switch reading of the
  previous iteration is off, even if the switch is on in this one: the direction
  stays none, cover and angle are unchanged, and the reply is sent as if the
  request had been accepted.\<close>

theorem loop_switch_gate:
  assumes "\<not> currentSwitchState s" "c = CHR ''O'' \<or> c = CHR ''C''" "motorDirection s = NONE"
  shows "motorDirection (fst (loop dev sw (CHR ''>'' # c # ''OOO'' @ CR # rest) s)) = NONE
       \<and> coverStatus (fst (loop dev sw (CHR ''>'' # c # ''OOO'' @ CR # rest) s)) = coverStatus s
       \<and> currentAngle (fst (loop dev sw (CHR ''>'' # c # ''OOO'' @ CR # rest) s)) = currentAngle s
       \<and> hd (fst (snd (loop dev sw (CHR ''>'' # c # ''OOO'' @ CR # rest) s))) = SerialWrite (reply c dev ''OOO'')"
proof -
  have c: "c \<noteq> CR" using assms(2) by (auto simp: CR_def)
  have hs: "handleSerial dev (CHR ''>'' # c # ''OOO'' @ CR # rest) s = (s, [SerialWrite (reply c dev ''OOO'')], rest)"
    using frame_OOO [OF c, of dev rest s] assms(1,2) by (auto simp: dispatch_def setShutter_def)
  show ?thesis
    using assms(3) unfolding loop_def hs by (simp add: handleMotor_idle Let_def)
qed

theorem loop_switch_gate_witness:
  "\<not> currentSwitchState init_flatbox \<and> motorDirection init_flatbox = NONE
   \<and> motorDirection (fst (loop FLIP_FLAT True (CHR ''>'' # CHR ''O'' # ''OOO'' @ CR # []) init_flatbox)) = NONE"
proof -
  have h: "\<not> currentSwitchState init_flatbox" "CHR ''O'' = CHR ''O'' \<or> CHR ''O'' = CHR ''C''"
    "motorDirection init_flatbox = NONE"
    by (simp_all add: init_flatbox_def)
  show ?thesis using h loop_switch_gate [OF h, of FLIP_FLAT True "[]"] by blast
qed

text \<open>C15: a loop that receives nothing brings any movement in progress to rest at
  its target end: after as many iterations as degrees remain (at most
  \<open>CLOSED_ANGLE - OPEN_ANGLE\<close>) the direction is none and the angle is the target.\<close>

theorem loop_idle_reaches_rest:
  assumes "reachable dev s"
  shows "motorDirection (idle_run dev sw (nat \<bar>targetAngle s - currentAngle s\<bar>) s) = NONE
       \<and> currentAngle (idle_run dev sw (nat \<bar>targetAngle s - currentAngle s\<bar>) s) = targetAngle s
       \<and> nat \<bar>targetAngle s - currentAngle s\<bar> \<le> nat (CLOSED_ANGLE - OPEN_ANGLE)"
proof -
  let ?n = "nat \<bar>targetAngle s - currentAngle s\<bar>"
  have i: "shutter_inv s" using reachable_loop_inv [OF assms] by (simp add: loop_inv_def)
  consider (rest) "motorDirection s = NONE" | (op) "motorDirection s = OPENING" | (cl) "motorDirection s = CLOSING"
    by (cases "motorDirection s") auto
  then show ?thesis
  proof cases
    case rest
    with i have "?n = 0" unfolding shutter_inv_def by auto
    with i rest show ?thesis unfolding shutter_inv_def by (auto simp: angle_defs)
  next
    case op
    with i have cur: "currentAngle s = targetAngle s + int ?n" and pos: "0 < ?n"
      unfolding shutter_inv_def by (auto simp: angle_defs)
    from motor_steps_opening [OF op cur pos order.refl] pos op i show ?thesis
      unfolding shutter_inv_def by (auto simp: idle_run_motor_steps angle_defs)
  next
    case cl
    with i have cur: "targetAngle s = currentAngle s + int ?n" and pos: "0 < ?n"
      unfolding shutter_inv_def by (auto simp: angle_defs)
    from motor_steps_closing [OF cl cur pos order.refl] pos cl i show ?thesis
      unfolding shutter_inv_def by (auto simp: idle_run_motor_steps angle_defs)
  qed
qed

theorem loop_idle_reaches_rest_witness:
  "reachable FLIP_FLAT (fst setup_sketch)
   \<and> motorDirection (idle_run FLIP_FLAT False
        (nat \<bar>targetAngle (fst setup_sketch) - currentAngle (fst setup_sketch)\<bar>) (fst setup_sketch)) = NONE"
  using loop_idle_reaches_rest [OF reachable.start [of FLIP_FLAT], of False] reachable.start [of FLIP_FLAT]
  by blast

text \<open>C16: \<open>handleMotor\<close> has no switch gate: with the switch off (servo
  detached) a movement in progress still advances the commanded angle and issues
  servo writes, so the angle the firmware reports drifts from the physical
  shutter, which does not move.\<close>

theorem loop_moves_with_servo_detached:
  assumes "reachable dev s" "motorDirection s = OPENING"
  shows "currentAngle (fst (loop dev False [] s)) = currentAngle s - 1
       \<and> \<not> currentSwitchState (fst (loop dev False [] s))
       \<and> servo_angles (fst (snd (loop dev False [] s))) = [currentAngle s - 1]"
proof -
  have "shutter_inv s" using reachable_loop_inv [OF assms(1)] by (simp add: loop_inv_def)
  with assms(2) have "targetAngle s < currentAngle s" unfolding shutter_inv_def by auto
  then show ?thesis
    using assms(2) by (simp add: loop_def Let_def handleSerial_short handleMotor_def)
qed

theorem loop_moves_with_servo_detached_witness:
  "reachable FLIP_FLAT (fst (loop FLIP_FLAT True (''>OOOO'' @ CR # []) (fst (loop FLIP_FLAT True [] (fst setup_sketch)))))
   \<and> motorDirection (fst (loop FLIP_FLAT True (''>OOOO'' @ CR # []) (fst (loop FLIP_FLAT True [] (fst setup_sketch))))) = OPENING
   \<and> currentAngle (fst (loop FLIP_FLAT False [] (fst (loop FLIP_FLAT True (''>OOOO'' @ CR # [])
        (fst (loop FLIP_FLAT True [] (fst setup_sketch))))))) = CLOSED_ANGLE - 2"
proof -
  let ?s1 = "fst (loop FLIP_FLAT True [] (fst setup_sketch))"
  let ?t1 = "init_flatbox\<lparr>currentSwitchState := True, lastSwitchState := True\<rparr>"
  let ?s2 = "fst (loop FLIP_FLAT True (''>OOOO'' @ CR # []) ?s1)"
  have r: "reachable FLIP_FLAT ?s2"
    by (intro reachable.iterate reachable.start)
  have s1: "?s1 = ?t1"
    by (simp add: loop_state handleSerial_short setup_sketch_def init_flatbox_def handleMotor_def)
  have hs: "handleSerial FLIP_FLAT (''>OOOO'' @ CR # []) ?t1 =
      (?t1\<lparr>motorDirection := OPENING, targetAngle := OPEN_ANGLE\<rparr>, [SerialWrite (reply CHR ''O'' FLIP_FLAT ''OOO'')], [])"
    using frame_OOO [of "CHR ''O''" FLIP_FLAT "[]" ?t1]
    by (simp add: dispatch_def setShutter_def init_flatbox_def)
  have d: "motorDirection ?s2 = OPENING \<and> currentAngle ?s2 = CLOSED_ANGLE - 1"
    unfolding s1 unfolding loop_state hs by (simp add: handleMotor_def init_flatbox_def angle_defs)
  then have "currentAngle (fst (loop FLIP_FLAT False [] ?s2)) = currentAngle ?s2 - 1"
    using loop_moves_with_servo_detached [OF r] by blast
  with r d show ?thesis by simp
qed

end
