(* ===== verification/Protocol.thy ===== *)
theory Protocol
  imports ControlLoop
begin

text \<open>
  The serial protocol as the line sees it.  A request is a frame \<open>>\<close>, a command
  letter, three payload bytes and CR (the \<open>Request:\<close> lines of the comments of
  \<open>handleSerial\<close>); \<open>handleSerial\<close> reads it into the array \<open>char str[20]\<close>
  (lines 109--111), modelled here as the 20 bytes \<open>str_buffer\<close> holds; every reply
  has the fixed shape \<open>reply_wf\<close>.  The theory proves that the C reads of
  \<open>str[1]\<close> and \<open>str + 2\<close> stay inside the array exactly when a terminator
  arrives within 20 bytes, that every reply a reachable state writes has the
  reply shape, that frames already waiting in the receive buffer are served one
  per \<open>loop()\<close> iteration in order, exactly as if each arrived on its own, and what
  the sketch answers to the example session of its header comment.
\<close>

section \<open>Frames, the line buffer and replies\<close>

text \<open>A request frame: marker, command letter, payload, carriage return.\<close>

definition frame :: "char \<Rightarrow> string \<Rightarrow> string" where
  "frame c p = CHR ''>'' # c # p @ [CR]"

definition frame_ok :: "char \<times> string \<Rightarrow> bool" where
  "frame_ok cp \<longleftrightarrow> fst cp \<noteq> CR \<and> CR \<notin> set (snd cp) \<and> length (snd cp) = 3"

text \<open>The array \<open>char str[20]\<close> after \<open>memset(str, 0, 20)\<close> and
  \<open>Serial.readBytesUntil('\r', str, 20)\<close> (lines 109--111): the bytes read,
  followed by the NULs the \<open>memset\<close> left.\<close>

definition str_buffer :: "string \<Rightarrow> string" where
  "str_buffer inp =
     (let str = fst (read_bytes_until CR 20 inp) in str @ replicate (20 - length str) NUL)"

text \<open>The reply shape of the protocol: \<open>*\<close>, a command letter, the two digits of
  the device identity, three payload bytes (digits or the filler \<open>O\<close>) and LF.\<close>

definition reply_wf :: "devices \<Rightarrow> string \<Rightarrow> bool" where
  "reply_wf dev r \<longleftrightarrow>
     length r = 8 \<and> r ! 0 = CHR ''*'' \<and> r ! 1 \<in> set ''POCLDBJSV''
     \<and> take 2 (drop 2 r) = fmt_d (device_code dev)
     \<and> list_all (\<lambda>x. is_digit x \<or> x = CHR ''O'') (take 3 (drop 4 r)) \<and> r ! 7 = LF"

text \<open>The bytes written to the serial line, in order, from a run's events.\<close>

fun serial_out :: "event list \<Rightarrow> string list" where
  "serial_out [] = []"
| "serial_out (SerialWrite r # es) = r # serial_out es"
| "serial_out (_ # es) = serial_out es"

text \<open>The example session of the header comment (lines 14--28), for a device
  with identity 19: each request with the reply the comment gives for it.\<close>

definition documented_session :: "(string \<times> string) list" where
  "documented_session =
     [(''>SOOO'' @ [CR], ''*S19OOO'' @ [LF]),
      (''>B128'' @ [CR], ''*B19128'' @ [LF]),
      (''>JOOO'' @ [CR], ''*B19128'' @ [LF]),
      (''>LOOO'' @ [CR], ''*L19OOO'' @ [LF]),
      (''>DOOO'' @ [CR], ''*D19OOO'' @ [LF])]"

section \<open>Lemmas\<close>

lemma handleSerial_one_frame:
  "frame_ok (c, p) \<Longrightarrow>
   handleSerial dev (frame c p) s = (fst (dispatch dev c (c_string p) s), snd (dispatch dev c (c_string p) s), [])"
  unfolding frame_def by (intro handleSerial_frame) (simp_all add: frame_ok_def CR_def)

lemma loop_frame:
  assumes "frame_ok (c, p)"
  shows "loop dev sw (frame c p @ rest) s =
           (fst (loop dev sw (frame c p) s), fst (snd (loop dev sw (frame c p) s)), rest)"
proof -
  have h: "handleSerial dev (CHR ''>'' # c # p @ CR # r) s =
      (fst (dispatch dev c (c_string p) s), snd (dispatch dev c (c_string p) s), r)" for r
    using assms by (intro handleSerial_frame) (simp_all add: frame_ok_def CR_def)
  show ?thesis
    using h [of rest] h [of "[]"] unfolding loop_def frame_def by (simp add: Let_def case_prod_beta)
qed

lemma handleSerial_events:
  "fst (snd (handleSerial dev inp s)) = []
   \<or> (\<exists>c d. fst (snd (handleSerial dev inp s)) = snd (dispatch dev c d s))"
  unfolding handleSerial_def by (simp add: case_prod_beta Let_def) blast

lemma handleMotor_no_serial: "SerialWrite r \<notin> set (snd (handleMotor s))"
  by (simp add: handleMotor_def Let_def)

lemma reply_wf_reply:
  assumes "c \<in> set ''POCLDBJSV''" "length pl = 3" "list_all (\<lambda>x. is_digit x \<or> x = CHR ''O'') pl"
  shows "reply_wf dev (reply c dev pl)"
proof -
  obtain x y z where pl: "pl = [x, y, z]"
    using assms(2) by (auto simp: length_Suc_conv numeral_3_eq_3)
  show ?thesis
    using assms(1,3) unfolding pl by (cases dev) (simp_all add: reply_wf_def reply_def fmt_d_codes)
qed

lemma list_all_digits_or_O: "\<forall>c \<in> set xs. is_digit c \<Longrightarrow> list_all (\<lambda>x. is_digit x \<or> x = CHR ''O'') xs"
  by (simp add: list_all_iff)

lemma dispatch_replies_wf:
  assumes "brightness_ok s" "SerialWrite r \<in> set (snd (dispatch dev c d s))"
  shows "reply_wf dev r"
proof -
  have b: "0 \<le> brightness_value v \<and> brightness_value v \<le> 255" for v by (rule brightness_value_range)
  have bd: "list_all (\<lambda>x. is_digit x \<or> x = CHR ''O'') (fmt_03d v)" if "0 \<le> v" for v
    using fmt_03d_digits [OF that] by (rule list_all_digits_or_O)
  have codes: "list_all (\<lambda>x. is_digit x \<or> x = CHR ''O'')
      (fmt_d (motor_code m) @ fmt_d (light_code l) @ fmt_d (shutter_code k))" for m l k
    by (cases m; cases l; cases k) (simp_all add: fmt_d_digit is_digit_def)
  have l1: "length (fmt_03d (brightness_value v)) = 3" for v
    using b [of v] by (simp add: fmt_03d_length)
  have l2: "length (fmt_03d (brightness s)) = 3" and j: "0 \<le> brightness s"
    using assms(1) by (simp_all add: brightness_ok_def fmt_03d_length)
  show ?thesis
    using assms(2)
    by (auto simp: dispatch_def Let_def l1 l2 is_digit_def split: if_split_asm
        intro!: reply_wf_reply bd codes b [THEN conjunct1] j)
qed

lemma str_buffer_full:
  "length (takeWhile (\<lambda>c. c \<noteq> CR) (take 20 inp)) = 20 \<longleftrightarrow> 20 \<le> length inp \<and> CR \<notin> set (take 20 inp)"
  (is "length ?str = 20 \<longleftrightarrow> _")
proof
  assume l: "length ?str = 20"
  have t: "length ?str \<le> length (take 20 inp)" by (rule length_takeWhile_le)
  show "20 \<le> length inp \<and> CR \<notin> set (take 20 inp)"
  proof
    show n20: "20 \<le> length inp" using l t by simp
    have e: "length ?str = length (take 20 inp)" using l t by simp
    have "?str = take 20 inp"
      using takeWhile_eq_take [of "\<lambda>c. c \<noteq> CR" "take 20 inp"] e n20 by simp
    then show "CR \<notin> set (take 20 inp)" by (metis (mono_tags) takeWhile_eq_all_conv)
  qed
next
  assume a: "20 \<le> length inp \<and> CR \<notin> set (take 20 inp)"
  then have e: "?str = take 20 inp" by (simp add: takeWhile_neq_notin)
  have "length (take 20 inp) = 20" using a by simp
  then show "length ?str = 20" by (simp only: e)
qed

lemma handleMotor_servo_range:
  "shutter_pending s \<Longrightarrow> ServoWrite a \<in> set (snd (handleMotor s)) \<Longrightarrow> OPEN_ANGLE \<le> a \<and> a \<le> CLOSED_ANGLE"
  by (auto simp: shutter_pending_def shutter_inv_def handleMotor_def Let_def angle_defs split: if_splits)

lemma handleMotor_no_analog: "AnalogWrite p v \<notin> set (snd (handleMotor s))"
  by (simp add: handleMotor_def Let_def)

lemma dispatch_led_range:
  "brightness_ok s \<Longrightarrow> AnalogWrite p v \<in> set (snd (dispatch dev c d s)) \<Longrightarrow> p = LED_PIN \<and> 0 \<le> v \<and> v \<le> 255"
  using brightness_value_range [of "atoi d"]
  by (auto simp: dispatch_def Let_def brightness_ok_def split: if_split_asm)

lemma dispatch_no_servo: "ServoWrite a \<notin> set (snd (dispatch dev c d s))"
  by (simp add: dispatch_def Let_def)

lemma serial_out_append [simp]: "serial_out (xs @ ys) = serial_out xs @ serial_out ys"
  by (induction xs rule: serial_out.induct) simp_all

lemma dispatch_one_reply: "length (serial_out (snd (dispatch dev c d s))) \<le> 1"
  by (simp add: dispatch_def Let_def)

lemma dispatch_no_motion: "servo_angles (snd (dispatch dev c d s)) = [] \<and> delay_total (snd (dispatch dev c d s)) = 0"
  by (simp add: dispatch_def Let_def)

lemma handleMotor_one_step:
  "serial_out (snd (handleMotor s)) = [] \<and> length (servo_angles (snd (handleMotor s))) \<le> 1
   \<and> delay_total (snd (handleMotor s)) \<le> SERVO_DELAY"
  by (simp add: handleMotor_def Let_def)

section \<open>Properties of the protocol\<close>

text \<open>C25: frames that are already waiting in the receive buffer are served one
  per \<open>loop()\<close> iteration, in the order they were sent, none lost or merged: for
  any switch readings, iterating on a buffer that holds the frames gives exactly
  the states, effects and remaining bytes of delivering each frame on its own
  just before its iteration.\<close>

theorem burst_served_in_order:
  assumes "length sws = length cmds" "list_all frame_ok cmds"
  shows "run dev (map (\<lambda>sw. (sw, [])) sws) (concat (map (\<lambda>(c, p). frame c p) cmds)) s =
         run dev (zip sws (map (\<lambda>(c, p). frame c p) cmds)) [] s"
  using assms
proof (induction cmds arbitrary: sws s)
  case Nil
  then show ?case by simp
next
  case (Cons cp cmds)
  obtain c p where cp: "cp = (c, p)" by fastforce
  obtain sw sws' where sws: "sws = sw # sws'" using Cons.prems(1) by (cases sws) auto
  have ok: "frame_ok (c, p)" "list_all frame_ok cmds" using Cons.prems(2) cp by simp_all
  define s1 where "s1 = fst (loop dev sw (frame c p) s)"
  define e1 where "e1 = fst (snd (loop dev sw (frame c p) s))"
  have l0: "loop dev sw (frame c p) s = (s1, e1, [])"
    using loop_frame [OF ok(1), of dev sw "[]" s] unfolding s1_def e1_def by (metis append_Nil2)
  have l: "loop dev sw (frame c p @ concat (map (\<lambda>(c, p). frame c p) cmds)) s =
      (s1, e1, concat (map (\<lambda>(c, p). frame c p) cmds))"
    unfolding s1_def e1_def by (rule loop_frame [OF ok(1)])
  show ?case
    using Cons.IH [of sws' s1] Cons.prems(1) ok(2) unfolding cp sws by (simp add: l l0)
qed

theorem burst_served_in_order_witness:
  "length [False, False] = length [(CHR ''L'', ''OOO''), (CHR ''S'', ''OOO'')]
   \<and> list_all frame_ok [(CHR ''L'', ''OOO''), (CHR ''S'', ''OOO'')]
   \<and> run FLIP_FLAT (map (\<lambda>sw. (sw, [])) [False, False])
         (concat (map (\<lambda>(c, p). frame c p) [(CHR ''L'', ''OOO''), (CHR ''S'', ''OOO'')])) (fst setup_sketch)
     = run FLIP_FLAT (zip [False, False] (map (\<lambda>(c, p). frame c p) [(CHR ''L'', ''OOO''), (CHR ''S'', ''OOO'')]))
         [] (fst setup_sketch)"
proof -
  have h1: "length [False, False] = length [(CHR ''L'', ''OOO''), (CHR ''S'', ''OOO'')]" by simp
  have h2: "list_all frame_ok [(CHR ''L'', ''OOO''), (CHR ''S'', ''OOO'')]" by (simp add: frame_ok_def CR_def)
  show ?thesis using burst_served_in_order [OF h1 h2, of FLIP_FLAT "fst setup_sketch"] h1 h2 by blast
qed

text \<open>C26: in every reachable state, every reply \<open>loop()\<close> writes to the serial
  line has the protocol's reply shape: eight bytes, \<open>*\<close>, one of the nine command
  letters, the device's two identity digits, three payload digits or \<open>O\<close>s, and LF.\<close>

theorem loop_replies_well_typed:
  assumes "reachable dev s" "SerialWrite r \<in> set (fst (snd (loop dev sw inp s)))"
  shows "reply_wf dev r"
proof -
  have b: "brightness_ok s" using reachable_loop_inv [OF assms(1)] by (simp add: loop_inv_def)
  have "SerialWrite r \<in> set (fst (snd (handleSerial dev inp s)))"
    using assms(2) handleMotor_no_serial by (auto simp: loop_events)
  then show ?thesis
    using handleSerial_events [of dev inp s] dispatch_replies_wf [OF b] by auto
qed

theorem loop_replies_well_typed_witness:
  "reachable FLIP_FLAT (fst setup_sketch)
   \<and> SerialWrite (''*S99001'' @ [LF]) \<in> set (fst (snd (loop FLIP_FLAT False (frame CHR ''S'' ''OOO'') (fst setup_sketch))))
   \<and> reply_wf FLIP_FLAT (''*S99001'' @ [LF])"
proof -
  have r: "reachable FLIP_FLAT (fst setup_sketch)" by (rule reachable.start)
  have ok: "frame_ok (CHR ''S'', ''OOO'')" by (simp add: frame_ok_def CR_def)
  have w: "SerialWrite (''*S99001'' @ [LF]) \<in> set (fst (snd (loop FLIP_FLAT False (frame CHR ''S'' ''OOO'') (fst setup_sketch))))"
    by (simp add: loop_def handleSerial_one_frame [OF ok] c_string_def NUL_def dispatch_def handleMotor_idle
        setup_sketch_def init_flatbox_def reply_def fmt_d_codes fmt_d_digit)
  show ?thesis using r w loop_replies_well_typed [OF r w] by blast
qed

text \<open>C27: the array \<open>str\<close> holds no NUL terminator exactly when the first 20
  received bytes contain neither CR nor NUL; then \<open>atoi(str + 2)\<close> reads past the
  array.  Otherwise the C reads of \<open>str[1]\<close> and \<open>str + 2\<close> return what the model's
  \<open>c_index\<close> and \<open>c_string\<close> return on the bytes read.\<close>

theorem str_buffer_unterminated:
  "(NUL \<notin> set (str_buffer inp) \<longleftrightarrow>
      20 \<le> length inp \<and> CR \<notin> set (take 20 inp) \<and> NUL \<notin> set (take 20 inp))
   \<and> str_buffer inp ! 1 = c_index (fst (read_bytes_until CR 20 inp)) 1
   \<and> c_string (drop 2 (str_buffer inp)) = c_string (drop 2 (fst (read_bytes_until CR 20 inp)))"
proof -
  let ?str = "takeWhile (\<lambda>c. c \<noteq> CR) (take 20 inp)"
  have s: "fst (read_bytes_until CR 20 inp) = ?str" by (rule read_bytes_until_takeWhile)
  have le: "length ?str \<le> 20" by (metis length_take length_takeWhile_le min.bounded_iff nat_le_linear)
  have t: "NUL \<notin> set (str_buffer inp) \<longleftrightarrow>
      20 \<le> length inp \<and> CR \<notin> set (take 20 inp) \<and> NUL \<notin> set (take 20 inp)"
  proof (cases "length ?str = 20")
    case True
    then have e: "?str = take 20 inp" using str_buffer_full [of inp] by (simp add: takeWhile_neq_notin)
    show ?thesis using True str_buffer_full [of inp] unfolding str_buffer_def s Let_def e by simp
  next
    case False
    then show ?thesis using str_buffer_full [of inp] le by (simp add: str_buffer_def s Let_def)
  qed
  have i: "str_buffer inp ! 1 = c_index (fst (read_bytes_until CR 20 inp)) 1"
    using le by (simp add: str_buffer_def Let_def c_index_def nth_append s)
  have d: "c_string (drop 2 (str_buffer inp)) = c_string (drop 2 (fst (read_bytes_until CR 20 inp)))"
    by (simp add: str_buffer_def Let_def c_string_padded)
  show ?thesis using t i d by blast
qed

theorem str_buffer_unterminated_witness:
  "NUL \<notin> set (str_buffer (replicate 20 CHR ''A''))
   \<and> NUL \<in> set (str_buffer (frame CHR ''S'' ''OOO''))"
proof -
  have a: "NUL \<notin> set (str_buffer (replicate 20 CHR ''A''))"
    using str_buffer_unterminated [of "replicate 20 CHR ''A''"] by (simp add: CR_def NUL_def)
  have b: "NUL \<in> set (str_buffer (frame CHR ''S'' ''OOO''))"
    using str_buffer_unterminated [of "frame CHR ''S'' ''OOO''"] by (simp add: frame_def CR_def NUL_def)
  show ?thesis using a b by blast
qed


text \<open>C30: in every reachable state, one \<open>loop()\<close> iteration drives only the LED pin
  with \<open>analogWrite\<close>, always with a duty in 0..255, and commands the servo only to
  angles between \<open>OPEN_ANGLE\<close> and \<open>CLOSED_ANGLE\<close>.\<close>

theorem loop_actuator_ranges:
  assumes "reachable dev s"
  shows "(\<forall>p v. AnalogWrite p v \<in> set (fst (snd (loop dev sw inp s))) \<longrightarrow> p = LED_PIN \<and> 0 \<le> v \<and> v \<le> 255)
       \<and> (\<forall>a. ServoWrite a \<in> set (fst (snd (loop dev sw inp s))) \<longrightarrow> OPEN_ANGLE \<le> a \<and> a \<le> CLOSED_ANGLE)"
proof -
  have inv: "brightness_ok s" "shutter_inv s" using reachable_loop_inv [OF assms] by (simp_all add: loop_inv_def)
  have pend: "shutter_pending (fst (handleSerial dev inp s))" by (rule handleSerial_shutter_pending [OF inv(2)])
  have led: "p = LED_PIN \<and> 0 \<le> v \<and> v \<le> 255" if "AnalogWrite p v \<in> set (fst (snd (handleSerial dev inp s)))" for p v
    using handleSerial_events [of dev inp s] that dispatch_led_range [OF inv(1)] by auto
  have servo: "ServoWrite a \<notin> set (fst (snd (handleSerial dev inp s)))" for a
    using handleSerial_events [of dev inp s] dispatch_no_servo by auto
  show ?thesis
    using led servo handleMotor_servo_range [OF pend] handleMotor_no_analog
    by (auto simp: loop_events)
qed

theorem loop_actuator_ranges_witness:
  "reachable FLIP_FLAT (fst setup_sketch)
   \<and> AnalogWrite LED_PIN 0 \<in> set (fst (snd (loop FLIP_FLAT False (frame CHR ''D'' ''OOO'') (fst setup_sketch))))
   \<and> 0 \<le> (0::int) \<and> (0::int) \<le> 255"
proof -
  have r: "reachable FLIP_FLAT (fst setup_sketch)" by (rule reachable.start)
  have ok: "frame_ok (CHR ''D'', ''OOO'')" by (simp add: frame_ok_def CR_def)
  have w: "AnalogWrite LED_PIN 0 \<in> set (fst (snd (loop FLIP_FLAT False (frame CHR ''D'' ''OOO'') (fst setup_sketch))))"
    by (simp add: loop_def handleSerial_one_frame [OF ok] dispatch_def handleMotor_idle setup_sketch_def init_flatbox_def)
  show ?thesis using r w loop_actuator_ranges [OF r, of False "frame CHR ''D'' ''OOO''"] by blast
qed

text \<open>C31: the frame marker is never checked: a complete frame whose first byte is
  anything but CR is executed exactly like the frame with \<open>>\<close>.\<close>

theorem frame_marker_ignored:
  assumes "m \<noteq> CR" "frame_ok (c, p)"
  shows "handleSerial dev (m # c # p @ CR # rest) s = handleSerial dev (frame c p @ rest) s"
proof -
  have ok: "c \<noteq> CR" "CR \<notin> set p" "length p = 3" using assms(2) by (simp_all add: frame_ok_def)
  show ?thesis
    using handleSerial_frame [OF assms(1) ok] handleSerial_frame [OF CR_neq(1) ok] by (simp add: frame_def)
qed

theorem frame_marker_ignored_witness:
  "CHR ''x'' \<noteq> CR \<and> frame_ok (CHR ''L'', ''OOO'')
   \<and> handleSerial FLIP_FLAT (CHR ''x'' # CHR ''L'' # ''OOO'' @ CR # []) init_flatbox
     = handleSerial FLIP_FLAT (frame CHR ''L'' ''OOO'' @ []) init_flatbox"
proof -
  have h: "CHR ''x'' \<noteq> CR" "frame_ok (CHR ''L'', ''OOO'')" by (simp_all add: frame_ok_def CR_def)
  show ?thesis using h frame_marker_ignored [OF h] by blast
qed

text \<open>C32: a short frame is not waited for: once six bytes are buffered, a frame
  with fewer than three payload bytes is executed with the shorter payload (the
  specification's error taxonomy says short frames are ignored until complete).
  For \<open>>B\r\<close> the empty payload is \<open>atoi\<close> 0 and the brightness becomes 0.\<close>

theorem short_frame_executed:
  assumes "c \<noteq> CR" "CR \<notin> set p" "length p < 3" "6 \<le> length (frame c p @ rest)"
  shows "handleSerial dev (frame c p @ rest) s =
           (fst (dispatch dev c (c_string p) s), snd (dispatch dev c (c_string p) s), rest)"
  using handleSerial_line [OF CR_neq(1) assms(1,2), of rest dev s] assms(3,4) by (simp add: frame_def)

theorem short_frame_executed_witness:
  "CHR ''B'' \<noteq> CR \<and> CR \<notin> set [] \<and> length ([] :: string) < 3
   \<and> 6 \<le> length (frame CHR ''B'' [] @ ''>LOOO'' @ [CR])
   \<and> fst (handleSerial FLIP_FLAT (frame CHR ''B'' [] @ ''>LOOO'' @ [CR]) (init_flatbox\<lparr>brightness := 61\<rparr>))
     = init_flatbox"
proof -
  have h: "CHR ''B'' \<noteq> CR" "CR \<notin> set []" "length ([] :: string) < 3"
    "6 \<le> length (frame CHR ''B'' [] @ ''>LOOO'' @ [CR])" by (simp_all add: frame_def)
  have "fst (handleSerial FLIP_FLAT (frame CHR ''B'' [] @ ''>LOOO'' @ [CR]) (init_flatbox\<lparr>brightness := 61\<rparr>))
     = init_flatbox"
    unfolding short_frame_executed [OF h]
    by (simp add: dispatch_def c_string_def atoi_def brightness_value_def constrain_def init_flatbox_def)
  then show ?thesis using h by blast
qed

text \<open>C33: there is no resynchronisation: one stray byte before a frame shifts the
  line, the marker \<open>>\<close> becomes the command byte, and the whole frame is consumed
  and dropped without a reply.\<close>

theorem stray_byte_drops_frame:
  assumes "x \<noteq> CR" "frame_ok (c, p)"
  shows "handleSerial dev (x # frame c p @ rest) s = (s, [], rest)"
proof -
  have ok: "c \<noteq> CR" "CR \<notin> set p" "length p = 3" using assms(2) by (simp_all add: frame_ok_def)
  have "handleSerial dev (x # CHR ''>'' # (c # p) @ CR # rest) s =
      (fst (dispatch dev CHR ''>'' (c_string (c # p)) s), snd (dispatch dev CHR ''>'' (c_string (c # p)) s), rest)"
    using ok by (intro handleSerial_line assms(1) CR_neq(1)) simp_all
  then show ?thesis by (simp add: frame_def dispatch_def)
qed

theorem stray_byte_drops_frame_witness:
  "CHR ''A'' \<noteq> CR \<and> frame_ok (CHR ''S'', ''OOO'')
   \<and> handleSerial FLIP_FLAT (CHR ''A'' # frame CHR ''S'' ''OOO'' @ []) init_flatbox = (init_flatbox, [], [])"
proof -
  have h: "CHR ''A'' \<noteq> CR" "frame_ok (CHR ''S'', ''OOO'')" by (simp_all add: frame_ok_def CR_def)
  show ?thesis using h stray_byte_drops_frame [OF h] by blast
qed

text \<open>C36: setting a brightness is idempotent (specification, section 8): the
  same \<open>B\<close> frame applied to the state it produced gives the same state, effects
  and remaining bytes again; the stored value does not drift.\<close>

theorem brightness_set_idempotent:
  assumes "frame_ok (CHR ''B'', p)"
  shows "handleSerial dev (frame CHR ''B'' p) (fst (handleSerial dev (frame CHR ''B'' p) s))
         = handleSerial dev (frame CHR ''B'' p) s"
  using assms by (simp add: handleSerial_one_frame dispatch_def Let_def)

theorem brightness_set_idempotent_witness:
  "frame_ok (CHR ''B'', ''128'')
   \<and> handleSerial FLIP_FLAT (frame CHR ''B'' ''128'') (fst (handleSerial FLIP_FLAT (frame CHR ''B'' ''128'') init_flatbox))
     = handleSerial FLIP_FLAT (frame CHR ''B'' ''128'') init_flatbox"
proof -
  have h: "frame_ok (CHR ''B'', ''128'')" by (simp add: frame_ok_def CR_def)
  show ?thesis using h brightness_set_idempotent [OF h] by blast
qed

end
