(* ===== verification/Spec2Isabelle.thy ===== *)
theory Spec2Isabelle
  imports Protocol
begin

text \<open>
  \<^bold>\<open>ArduinoFlatBox: a verified model of the firmware.\<close>
  The sketch \<open>src/src/main.cpp\<close> (with the constants of \<open>src/src/main.h\<close>) runs a
  PC-controlled light box with a servo-driven cover.  It has two cooperating parts,
  called once per iteration of the Arduino \<open>loop()\<close>: the command dispatcher
  \<open>handleSerial\<close>, which reads one fixed-length ASCII frame, changes the shared
  globals and writes one reply, and the shutter engine, whose \<open>setShutter\<close> turns
  an open/close request into a direction and a target angle and whose
  \<open>handleMotor\<close> moves the commanded servo angle one degree per iteration.  After
  both, \<open>loop()\<close> reads the override switch and attaches or detaches the servo on an
  edge.  The globals are shared: the dispatcher reports the status the engine
  maintains, and \<open>setShutter\<close> reads the switch level that \<open>loop()\<close> stored in the
  previous iteration.

  \<^bold>\<open>Theories.\<close>
  \<^item> \<open>Prelude\<close>: the fact collections \<open>fb_simps\<close> and \<open>fb_intros\<close>, the type
    \<open>angle\<close>, and the 16-bit range of the AVR \<open>int\<close> with \<open>as_int16\<close> (a
    \<open>16 word\<close>) and the lemma that in-range values survive the round trip.
  \<^item> \<open>FlatBoxState\<close>: the \<open>main.h\<close> constants, the enums \<open>devices\<close>,
    \<open>motorStatuses\<close>, \<open>lightStatuses\<close>, \<open>shutterStatuses\<close>, \<open>motorDirection\<close>
    with their C integer values (\<open>device_code\<close>, \<open>motor_code\<close>, \<dots>), the
    globals of lines 68--76 as the record \<open>flatbox\<close> with initial value
    \<open>init_flatbox\<close>, and the hardware effects as the datatype \<open>event\<close>
    (\<open>SerialBegin\<close>, \<open>PinMode\<close>, \<open>SerialWrite\<close>, \<open>AnalogWrite\<close>, \<open>ServoWrite\<close>,
    \<open>ServoAttach\<close>, \<open>ServoDetach\<close>, \<open>Delay\<close>), carrying the pin numbers \<open>LED_PIN\<close>,
    \<open>SWITCH_PIN\<close>, \<open>SERVO_PIN\<close> of \<open>main.h\<close> where the call names one.
    \<open>deviceId\<close> is never written, so it is a parameter \<open>dev\<close> of the operations.
  \<^item> \<open>Shutter\<close>: \<open>setShutter\<close> and \<open>handleMotor\<close> statement by statement
    (\<open>handleMotor\<close> returns its servo write and delay), \<open>motor_steps\<close> for
    repeated calls, the invariant \<open>shutter_inv\<close> between iterations and
    \<open>shutter_pending\<close> inside one, and the abstract four-phase shutter of the
    specification (\<open>phase\<close>, \<open>abs_request\<close>, \<open>abs_tick\<close>) with the abstraction
    \<open>abs_shutter\<close>.  Lemmas: each operation keeps the invariants; the refinement
    of the abstract machine by both operations (C2, C3); complete opening and
    closing movements, by induction on the number of steps (C4, C5); reversal
    mid-travel (C34), that a step never passes the target (C35) and the
    \<open>delay\<close> time of a movement (C37).
  \<^item> \<open>CLib\<close>: the library calls the dispatcher relies on, with their C and
    Arduino semantics: \<open>Serial.readBytesUntil\<close> as \<open>read_bytes_until\<close>, the
    zero-filled buffer read as C strings (\<open>c_index\<close>, \<open>c_string\<close>), \<open>atoi\<close>,
    \<open>sprintf\<close> \<open>%d\<close> and \<open>%03d\<close> (\<open>fmt_d\<close>, \<open>fmt_03d\<close>), the
    \<open>constrain\<close> macro, the \<open>(int)\<close> conversion of a floating value
    (\<open>c_trunc\<close>, towards zero) and the extent of \<open>atoi\<close>'s scan (\<open>atoi_scan\<close>).  Lemmas: parse/print round trips, reading a complete
    frame, lengths and ranges of printed and parsed values.
  \<^item> \<open>Dispatcher\<close>: \<open>handleSerial\<close> (the six-byte guard, the line read and the
    switch on \<open>str[1]\<close>), \<open>dispatch\<close> (the nine cases and the silent default,
    effects in source order), the reply format \<open>reply\<close> and the brightness curve
    \<open>brightness_value\<close> (integer form) and \<open>brightness_exact\<close> (the literal
    \<open>double\<close> expression, in the reals).  Lemmas: the brightness set/get round trip (C6), the
    curve over the documented inputs (C7), light toggling (C8), silence on unknown
    letters (C9), buffer consumption (C10), reply sizes against \<open>char temp[10]\<close>
    (C11), read-only commands (C17), the 16-bit range of the cast on line 197
    (C18), the equivalence of the two curve definitions (C24) and how the
    truncating curve relates to the rounding one of the specification (C29).
  \<^item> \<open>ControlLoop\<close>: \<open>setup_sketch\<close> (\<open>setup()\<close>) and \<open>loop\<close>, runs over
    inputs, the reachable states as an inductive predicate over arbitrary switch
    readings and received bytes, and \<open>idle_run\<close>.  Lemmas: the status invariant on
    every reachable state by rule induction (C1), the 16-bit bounds of the globals
    (C12), the order of effects in one iteration (C13), the switch gate and its
    one-iteration lag (C14), convergence of an idle loop (C15) and motion with the
    servo detached (C16).
  \<^item> \<open>Protocol\<close>: the protocol on the line: request frames (\<open>frame\<close>), the
    array \<open>char str[20]\<close> after \<open>memset\<close> and \<open>readBytesUntil\<close> (\<open>str_buffer\<close>,
    lines 109--111), the reply shape \<open>reply_wf\<close>, the bytes written (\<open>serial_out\<close>)
    and the example session of the header comment (\<open>documented_session\<close>, lines
    14--28).  Lemmas: buffered frames are served one per iteration in order (C25),
    every reply of a reachable state has the reply shape (C26), when \<open>str\<close> is
    left without terminator (C27), the code's answers to the documented
    session (C28), the ranges of the LED duty and servo angles written (C30),
    and the framing error paths: the marker byte is not checked (C31), a short
    frame is executed (C32), a stray byte makes the next frame be dropped (C33);
    and that a repeated brightness frame does not drift (C36).
  \<^item> This theory: the status observation \<open>abs_status\<close> the specification asks
    for, and end-to-end properties across the parts: the status and brightness
    reply after \<open>setup()\<close> (C23), the inputs on which \<open>handleSerial\<close> executes
    undefined behaviour of C (\<open>handleSerial_ub\<close>, C19), the role of the device identity (C20,
    C21), the servo range (C22), the status reply as a refinement of the abstract
    phase (C38), completion of an open request at the level of \<open>loop()\<close> (C39)
    and at most one action and one step per iteration (C40).

  \<^bold>\<open>Bounds and fuel.\<close>  No loop of the sketch is unbounded: \<open>readBytesUntil\<close> is
  bounded by its length argument 20 (structural recursion on it), the digit loops
  by the string, and the motion by the angle distance.  A movement needs exactly
  as many \<open>handleMotor\<close> calls as degrees remain, at most
  \<open>CLOSED_ANGLE - OPEN_ANGLE = 270\<close> (C4, C5, C15), with \<open>SERVO_DELAY\<close> ms of
  \<open>delay\<close> each, 4050 ms for a full travel (C37); these counts are proved, not
  assumed.  Integers are unbounded in the model; C12 and C18 prove that every value
  the sketch stores or casts fits its 16-bit \<open>int\<close>, so wrap-around never occurs.
  The \<open>double\<close> arithmetic of line 197 is modelled by exact real arithmetic
  (\<open>brightness_exact\<close>), which C24 proves equal to the integer form
  \<open>(394 (x - 3)^2) div 100000\<close>.  The rounding of the \<open>double\<close> operations is
  not modelled: for every \<open>atoi\<close> value of a three-byte payload (-99..999) a
  non-integral value of the exact product is at least \<open>10^-5\<close> from an integer,
  far above the rounding error at these magnitudes, so the truncation agrees (the
  agreement was also checked exhaustively outside the kernel).

  \<^bold>\<open>Not modelled.\<close>  The Arduino libraries themselves (Servo, \<open>analogWrite\<close>,
  \<open>digitalRead\<close>, \<open>delay\<close>, \<open>Serial\<close>) beyond the effects they are called for;
  the Servo library's own clamping of angles to 0..180; timing (\<open>delay\<close> is an
  event, the one-second \<open>readBytesUntil\<close> timeout is the end of the buffered
  bytes, so the input of a call is what arrives before the timeout).  Undefined
  behaviour of C is not given a value: \<open>handleSerial_ub\<close> says when a call executes
  it (\<open>atoi\<close> reading past \<open>str[20]\<close>, \<open>atoi\<close> or \<open>atoi(data) - 3\<close> leaving the
  16-bit range, the \<open>(int)\<close> conversion of line 197 out of range), C19 and C27 prove
  that no protocol frame does so and which lines do, and the other properties
  describe the defined executions, where the model's unbounded integers and
  bounded reads coincide with C.  There is nothing else in \<open>src/\<close> left to
  model: the remaining lines of the map's files are comments, include guards,
  prototypes and the \<open>Servo myservo\<close> object, whose state lives in the library.
\<close>

section \<open>The observable status\<close>

text \<open>What a status reply should say according to the specification (sections 4.1
  and 4.2): the motor digit is 1 exactly while the shutter moves, the light digit
  is the light status, and the cover digit is 2 for idle open, 1 for idle closed and
  0 while moving.  It is an observation of the abstract shutter of \<open>Shutter\<close>.\<close>

definition abs_status :: "phase \<Rightarrow> lightStatuses \<Rightarrow> string" where
  "abs_status ph l =
     (case ph of Idle_Open \<Rightarrow> ''0'' | Idle_Closed \<Rightarrow> ''0'' | _ \<Rightarrow> ''1'')
     @ (if l = ON then ''1'' else ''0'')
     @ (case ph of Idle_Open \<Rightarrow> ''2'' | Idle_Closed \<Rightarrow> ''1'' | _ \<Rightarrow> ''0'')"

section \<open>Undefined behaviour of handleSerial\<close>

text \<open>When a call of \<open>handleSerial\<close> executes undefined behaviour of C on the
  16-bit target.  Only the \<open>B\<close> case reads the payload: \<open>atoi(data)\<close> reads past
  \<open>str[20]\<close> when its scan reaches the end of the array (no terminator), its value
  may not fit \<open>int\<close>, \<open>atoi(data) - 3\<close> may overflow, and the \<open>(int)\<close>
  conversion of \<open>0.00394 * db * db\<close> (line 197; its truncation is the integer
  form, C24) may leave the range of \<open>int\<close>.\<close>

definition handleSerial_ub :: "string \<Rightarrow> bool" where
  "handleSerial_ub inp \<longleftrightarrow>
     6 \<le> length inp \<and> c_index (fst (read_bytes_until CR 20 inp)) 1 = CHR ''B''
     \<and> (let d = drop 2 (str_buffer inp); v = atoi (c_string d)
        in atoi_scan d = length d \<or> \<not> int16_ok v \<or> \<not> int16_ok (v - 3)
           \<or> \<not> int16_ok ((394 * (v - 3) * (v - 3)) div 100000))"

section \<open>The status digits\<close>

lemma frame_no_ub:
  assumes "frame_ok (c, p)"
  shows "\<not> handleSerial_ub (frame c p @ rest)"
proof -
  have ok: "c \<noteq> CR" "CR \<notin> set p" "length p = 3" using assms by (simp_all add: frame_ok_def)
  have rd: "read_bytes_until CR 20 ((CHR ''>'' # c # p) @ CR # rest) = (CHR ''>'' # c # p, rest)"
    using ok by (intro read_bytes_until_frame) (auto simp: CR_def)
  have d: "drop 2 (str_buffer (frame c p @ rest)) = p @ replicate 15 NUL"
    using rd ok by (simp add: str_buffer_def frame_def)
  have scan: "atoi_scan (p @ replicate 15 NUL) < length (p @ replicate 15 NUL)"
    by (rule atoi_scan_NUL) simp
  have cs: "c_string (p @ replicate 15 NUL) = c_string p" by (rule c_string_padded)
  have len: "length (c_string p) \<le> 3" using ok by (simp add: c_string_def order_trans [OF length_takeWhile_le])
  have r: "-99 \<le> atoi (c_string p)" "atoi (c_string p) \<le> 999" using atoi_short_range [OF len] by auto
  then have "\<bar>atoi (c_string p) - 3\<bar> \<le> 996" by simp
  then have q: "0 \<le> (394 * (atoi (c_string p) - 3) * (atoi (c_string p) - 3)) div 100000"
    "(394 * (atoi (c_string p) - 3) * (atoi (c_string p) - 3)) div 100000 \<le> 3908"
    using curve_product_bounds [of "atoi (c_string p) - 3" 996] by simp_all
  have i: "int16_ok (atoi (c_string p))" "int16_ok (atoi (c_string p) - 3)"
    "int16_ok ((394 * (atoi (c_string p) - 3) * (atoi (c_string p) - 3)) div 100000)"
    using r q by (auto intro!: int16_okI)
  show ?thesis
    unfolding handleSerial_ub_def Let_def d cs using scan i by simp
qed

lemma status_digits:
  assumes "shutter_inv s"
  shows "fmt_d (motor_code (motorStatus s)) @ fmt_d (light_code (lightStatus s)) @ fmt_d (shutter_code (coverStatus s))
         = abs_status (fst (abs_shutter s)) (lightStatus s)"
  using assms unfolding shutter_inv_def
  by (cases "lightStatus s") (auto simp: abs_shutter_def abs_status_def fmt_d_digit)

section \<open>End-to-end properties\<close>

text \<open>C19: undefined behaviour on the 16-bit target: no request frame of the
  protocol triggers any; a seven-byte line \<open>>B2887\r\<close> makes the \<open>(int)\<close>
  conversion of line 197 undefined (32770 does not fit \<open>int\<close>) while \<open>>B2886\r\<close>
  stays defined; and a 20-byte line of digits without CR makes \<open>atoi\<close> read
  past \<open>str\<close>.\<close>

theorem handleSerial_ub_boundary:
  "(\<forall>c p rest. frame_ok (c, p) \<longrightarrow> \<not> handleSerial_ub (frame c p @ rest))
   \<and> \<not> handleSerial_ub (''>B2886'' @ [CR]) \<and> handleSerial_ub (''>B2887'' @ [CR])
   \<and> handleSerial_ub (''>B'' @ replicate 18 CHR ''0'')"
proof -
  have r1: "read_bytes_until CR 20 (''>B2886'' @ [CR]) = (''>B2886'', [])"
    by (rule read_line_literal) (simp_all add: CR_def)
  have r2: "read_bytes_until CR 20 (''>B2887'' @ [CR]) = (''>B2887'', [])"
    by (rule read_line_literal) (simp_all add: CR_def)
  have r3: "read_bytes_until CR 20 (''>B'' @ replicate 18 CHR ''0'') = (''>B'' @ replicate 18 CHR ''0'', [])"
  proof -
    have l: "length (''>B'' @ replicate 18 CHR ''0'') = 20" by simp
    show ?thesis
      using read_bytes_until_consumes_all [of CR "''>B'' @ replicate 18 CHR ''0''", unfolded l]
      by (simp add: CR_def)
  qed
  have a: "\<not> handleSerial_ub (''>B2886'' @ [CR])"
    unfolding handleSerial_ub_def str_buffer_def r1 by (simp add: c_index_def atoi_scan_def atoi_def c_string_def
        is_space_def is_digit_def digit_value_def NUL_def int16_ok_def INT16_MIN_def INT16_MAX_def)
  have b: "handleSerial_ub (''>B2887'' @ [CR])"
    unfolding handleSerial_ub_def str_buffer_def r2 by (simp add: c_index_def atoi_scan_def atoi_def c_string_def
        is_space_def is_digit_def digit_value_def NUL_def int16_ok_def INT16_MIN_def INT16_MAX_def)
  have c: "handleSerial_ub (''>B'' @ replicate 18 CHR ''0'')"
    unfolding handleSerial_ub_def str_buffer_def r3 by (simp add: c_index_def atoi_scan_def
        is_space_def is_digit_def numeral_eq_Suc)
  show ?thesis using frame_no_ub a b c by blast
qed

theorem handleSerial_ub_boundary_witness:
  "frame_ok (CHR ''B'', ''999'') \<and> \<not> handleSerial_ub (frame CHR ''B'' ''999'' @ [])"
proof -
  have h: "frame_ok (CHR ''B'', ''999'')" by (simp add: frame_ok_def CR_def)
  show ?thesis using h handleSerial_ub_boundary by blast
qed

text \<open>C20: the device identity only changes the text of the replies: for every
  input, the state after \<open>handleSerial\<close> and the bytes it leaves are the same for
  all four device variants.\<close>

theorem device_id_only_in_replies:
  "fst (handleSerial dev inp s) = fst (handleSerial dev' inp s)
   \<and> snd (snd (handleSerial dev inp s)) = snd (snd (handleSerial dev' inp s))"
  unfolding handleSerial_def by (simp add: case_prod_beta Let_def fst_dispatch_device [of dev _ _ _ dev'])






text \<open>C38: every status query reflects the shutter's phase (specification, section
  4): in every reachable state a complete \<open>S\<close> frame leaves the state unchanged,
  consumes the frame and replies with exactly the digits the abstract phase of the
  shutter and the light status call for.\<close>

theorem status_reflects_phase:
  assumes "reachable dev s" "frame_ok (CHR ''S'', p)"
  shows "handleSerial dev (frame CHR ''S'' p @ rest) s =
     (s, [SerialWrite (reply CHR ''S'' dev (abs_status (fst (abs_shutter s)) (lightStatus s)))], rest)"
proof -
  have inv: "shutter_inv s" using reachable_loop_inv [OF assms(1)] by (simp add: loop_inv_def)
  have "handleSerial dev (CHR ''>'' # CHR ''S'' # p @ CR # rest) s =
      (fst (dispatch dev CHR ''S'' (c_string p) s), snd (dispatch dev CHR ''S'' (c_string p) s), rest)"
    using assms(2) by (intro handleSerial_frame) (simp_all add: frame_ok_def)
  then show ?thesis by (simp add: frame_def dispatch_def status_digits [OF inv])
qed

theorem status_reflects_phase_witness:
  "reachable FLIP_FLAT (fst setup_sketch) \<and> frame_ok (CHR ''S'', ''OOO'')
   \<and> handleSerial FLIP_FLAT (frame CHR ''S'' ''OOO'' @ []) (fst setup_sketch)
     = (fst setup_sketch, [SerialWrite (reply CHR ''S'' FLIP_FLAT ''001'')], [])"
proof -
  have h: "reachable FLIP_FLAT (fst setup_sketch)" "frame_ok (CHR ''S'', ''OOO'')"
    by (simp_all add: reachable.start frame_ok_def CR_def)
  have a: "abs_status (fst (abs_shutter (fst setup_sketch))) (lightStatus (fst setup_sketch)) = ''001''"
    by (simp add: abs_status_def abs_shutter_def setup_sketch_def init_flatbox_def)
  show ?thesis using h status_reflects_phase [OF h, of "[]"] a by simp
qed

text \<open>C39: an open request completes at the level of \<open>loop()\<close>: from a reachable
  state with the switch on (as read in the previous iteration) and the cover not
  open, the iteration that receives \<open>>OOOO\r\<close> replies and takes the first step,
  and after as many further idle iterations as degrees then remain the cover is
  open, at \<open>OPEN_ANGLE\<close>, with the motor stopped.\<close>

theorem loop_open_completes:
  assumes "reachable dev s" "currentSwitchState s" "coverStatus s \<noteq> OPEN"
  shows "coverStatus (idle_run dev True (nat (currentAngle s - OPEN_ANGLE) - 1)
            (fst (loop dev True (frame CHR ''O'' ''OOO'') s))) = OPEN
       \<and> currentAngle (idle_run dev True (nat (currentAngle s - OPEN_ANGLE) - 1)
            (fst (loop dev True (frame CHR ''O'' ''OOO'') s))) = OPEN_ANGLE
       \<and> motorStatus (idle_run dev True (nat (currentAngle s - OPEN_ANGLE) - 1)
            (fst (loop dev True (frame CHR ''O'' ''OOO'') s))) = STOPPED
       \<and> hd (fst (snd (loop dev True (frame CHR ''O'' ''OOO'') s))) = SerialWrite (reply CHR ''O'' dev ''OOO'')"
proof -
  have inv: "shutter_inv s" using reachable_loop_inv [OF assms(1)] by (simp add: loop_inv_def)
  let ?n = "nat (currentAngle s - OPEN_ANGLE)"
  have pos: "0 < ?n" by (rule open_request_facts(2) [OF inv assms(2,3)])
  have ok: "frame_ok (CHR ''O'', ''OOO'')" by (simp add: frame_ok_def CR_def)
  have hs: "handleSerial dev (frame CHR ''O'' ''OOO'') s =
      (setShutter OPEN s, [SerialWrite (reply CHR ''O'' dev ''OOO'')], [])"
    using handleSerial_one_frame [OF ok, of dev s] by (simp add: dispatch_def c_string_def NUL_def)
  have st: "fst (loop dev True (frame CHR ''O'' ''OOO'') s) =
      (fst (motor_steps 1 (setShutter OPEN s)))\<lparr>currentSwitchState := True, lastSwitchState := True\<rparr>"
    by (simp add: loop_state hs case_prod_beta)
  have n: "fst (motor_steps (?n - 1) (fst (motor_steps 1 (setShutter OPEN s)))) = fst (motor_steps ?n (setShutter OPEN s))"
    using motor_steps_add [of 1 "?n - 1" "setShutter OPEN s"] pos by simp
  have ev: "hd (fst (snd (loop dev True (frame CHR ''O'' ''OOO'') s))) = SerialWrite (reply CHR ''O'' dev ''OOO'')"
    by (simp add: loop_events hs)
  show ?thesis
    unfolding st idle_run_switch n using ev open_request_run [OF inv assms(2,3)] open_request_facts(1) [OF inv assms(2,3)]
    by (simp add: angle_defs)
qed

theorem loop_open_completes_witness:
  "reachable FLIP_FLAT (fst (loop FLIP_FLAT True [] (fst setup_sketch)))
   \<and> currentSwitchState (fst (loop FLIP_FLAT True [] (fst setup_sketch)))
   \<and> coverStatus (fst (loop FLIP_FLAT True [] (fst setup_sketch))) \<noteq> OPEN
   \<and> coverStatus (idle_run FLIP_FLAT True 269
       (fst (loop FLIP_FLAT True (frame CHR ''O'' ''OOO'') (fst (loop FLIP_FLAT True [] (fst setup_sketch)))))) = OPEN"
proof -
  have s1: "fst (loop FLIP_FLAT True [] (fst setup_sketch)) =
      init_flatbox\<lparr>currentSwitchState := True, lastSwitchState := True\<rparr>"
    by (simp add: loop_state handleSerial_short handleMotor_idle setup_sketch_def init_flatbox_def)
  have h: "reachable FLIP_FLAT (fst (loop FLIP_FLAT True [] (fst setup_sketch)))"
    "currentSwitchState (fst (loop FLIP_FLAT True [] (fst setup_sketch)))"
    "coverStatus (fst (loop FLIP_FLAT True [] (fst setup_sketch))) \<noteq> OPEN"
    by (simp_all add: reachable.iterate reachable.start) (simp_all add: s1 init_flatbox_def)
  have n: "nat (currentAngle (fst (loop FLIP_FLAT True [] (fst setup_sketch))) - OPEN_ANGLE) - 1 = 269"
    by (simp add: s1 init_flatbox_def angle_defs)
  show ?thesis using h loop_open_completes [OF h] unfolding n by blast
qed

text \<open>C40: one iteration of \<open>loop()\<close> does at most one dispatcher action and at
  most one motor step (specification, section 5): whatever the input, it writes at
  most one reply, commands the servo at most once and waits at most one
  \<open>SERVO_DELAY\<close>.\<close>

theorem loop_one_action:
  "length (serial_out (fst (snd (loop dev sw inp s)))) \<le> 1
   \<and> length (servo_angles (fst (snd (loop dev sw inp s)))) \<le> 1
   \<and> delay_total (fst (snd (loop dev sw inp s))) \<le> SERVO_DELAY"
proof -
  have hs: "length (serial_out (fst (snd (handleSerial dev inp s)))) \<le> 1
      \<and> servo_angles (fst (snd (handleSerial dev inp s))) = [] \<and> delay_total (fst (snd (handleSerial dev inp s))) = 0"
    using handleSerial_events [of dev inp s] dispatch_one_reply dispatch_no_motion by auto
  show ?thesis
    using hs handleMotor_one_step [of "fst (handleSerial dev inp s)"] by (simp add: loop_events)
qed

end
